theory Spec2Isabelle
  imports Complex_Main "HOL-Library.Word"
begin

unbundle bit_operations_syntax

section \<open>Data model\<close>

text \<open>
  The pipeline of \<^verbatim>\<open>weserv::api::processors::Stream\<close>: page selection and decoding
  (\<^verbatim>\<open>get_page_load_options\<close>, \<^verbatim>\<open>resolve_page\<close>, \<^verbatim>\<open>new_from_source\<close>), orientation
  and target dimensions (\<^verbatim>\<open>resolve_query\<close>) and encoding (\<^verbatim>\<open>write_to_target\<close>).

  The C++ \<^verbatim>\<open>int\<close> is modelled by \<^typ>\<open>int\<close>; where an operation of the source can leave
  the 32-bit range the wrap-around is written out (\<open>int32\<close> below), and the conversions
  to \<^verbatim>\<open>uint64_t\<close> are written out as well (\<open>uint64\<close>). The C++ \<^verbatim>\<open>float\<close> is modelled by
  its bits, with the rounding of each operation written out.
\<close>

text \<open>\<^verbatim>\<open>enums::Output\<close>, by the enumerators the source names.\<close>

datatype Output = Origin | Jpeg | Png | Webp | Avif | Tiff | Gif | Json

text \<open>
  \<^verbatim>\<open>enums::ImageType\<close> is stored in the query as \<^verbatim>\<open>static_cast<int>(image_type)\<close> and read
  back as an \<^verbatim>\<open>ImageType\<close>; its enumerators are not in the source, so a type is its
  underlying integer.
\<close>

type_synonym ImageType = int

text \<open>
  The C++ \<^verbatim>\<open>float\<close> is a value of IEEE binary32, given by its 32 bits: the sign, eight bits
  of exponent and 23 bits of fraction. Its arithmetic is in the subsection on single
  precision below.
\<close>

type_synonym float32 = "32 word"

text \<open>
  \<^verbatim>\<open>parsers::Coordinate\<close> is not in the source: opaque here. Its operations are fields of
  the record \<open>utils\<close> below.
\<close>

typedecl Coordinate

subsection \<open>Images, configuration and collaborators\<close>

text \<open>
  What the pipeline reads of a \<^verbatim>\<open>VImage\<close> and what it sets on one: the dimensions, the
  alpha flag, and the metadata fields \<^verbatim>\<open>VIPS_META_N_PAGES\<close> (\<open>None\<close> when
  \<^verbatim>\<open>get_typeof\<close> answers 0), \<^verbatim>\<open>VIPS_META_PAGE_HEIGHT\<close>, \<^verbatim>\<open>loop\<close> and \<^verbatim>\<open>delay\<close>.
\<close>

record VImage =
  width :: int
  height :: int
  has_alpha :: bool
  meta_n_pages :: "int option"
  meta_page_height :: "int option"
  meta_loop :: "int option"
  meta_delay :: "int list option"

text \<open>
  The fields of \<^verbatim>\<open>config_\<close> that the source reads (its declaration is not in the source).
  The two limits are compared as integers, \<^verbatim>\<open>savers\<close> is the mask of the savers enabled, and
  the qualities, levels and efforts are the values after \<^verbatim>\<open>static_cast<int>\<close>.
\<close>

record Config =
  fail_on_error :: int
  max_pages :: int
  limit_input_pixels :: int
  savers :: nat
  process_timeout :: int
  jpeg_quality :: int
  zlib_level :: int
  webp_quality :: int
  webp_effort :: int
  avif_quality :: int
  avif_effort :: int
  tiff_quality :: int
  gif_effort :: int

text \<open>
  What the source uses and does not define, taken as parameters: the functions of
  \<^verbatim>\<open>utils\<close>, the value of each \<^verbatim>\<open>Output\<close> enumerator (\<^verbatim>\<open>static_cast<uintptr_t>(output)\<close>),
  \<^verbatim>\<open>ImageType::Unknown\<close>, \<^verbatim>\<open>Coordinate::INVALID\<close>, \<^verbatim>\<open>Coordinate::to_pixels\<close> (which returns an
  \<^verbatim>\<open>int\<close>) and \<^verbatim>\<open>VIPS_MAX_COORD\<close>.
\<close>

record utils =
  exif_orientation :: "VImage \<Rightarrow> int"
  determine_image_type :: "string \<Rightarrow> ImageType"
  support_alpha_channel :: "ImageType \<Rightarrow> bool"
  to_output :: "ImageType \<Rightarrow> Output"
  determine_image_extension :: "Output \<Rightarrow> string"
  supported_savers_string :: "nat \<Rightarrow> string"
  image_to_json :: "VImage \<Rightarrow> ImageType \<Rightarrow> string"
  Output_value :: "Output \<Rightarrow> nat"
  ImageType_Unknown :: ImageType
  Coordinate_INVALID :: Coordinate
  to_pixels :: "Coordinate \<Rightarrow> int \<Rightarrow> int"
  VIPS_MAX_COORD :: int

text \<open>The options of one load: \<^verbatim>\<open>access\<close>, \<^verbatim>\<open>fail\<close>, and \<^verbatim>\<open>n\<close> and \<^verbatim>\<open>page\<close> when set.\<close>

datatype VipsAccess = VIPS_ACCESS_RANDOM | VIPS_ACCESS_SEQUENTIAL

record VOption =
  opt_access :: VipsAccess
  opt_fail :: bool
  opt_n :: "int option"
  opt_page :: "int option"

text \<open>
  libvips on the source of one request: the loader the two detection calls find (\<open>None\<close>
  for \<^verbatim>\<open>nullptr\<close>), whether \<^verbatim>\<open>vips_source_map_blob\<close> returns a blob, and the image that
  \<^verbatim>\<open>VImage::call\<close> yields for a loader, the input chosen (\<open>True\<close>: the buffer, \<open>False\<close>: the
  source) and the options; \<open>None\<close> when it throws \<^verbatim>\<open>VError\<close>.
\<close>

record vips =
  vips_foreign_find_load_source :: "string option"
  vips_source_map_blob :: bool
  vips_foreign_find_load_buffer :: "string option"
  call :: "string \<Rightarrow> bool \<Rightarrow> VOption \<Rightarrow> VImage option"

text \<open>A value of a save option.\<close>

datatype ovalue = OInt int | OBool bool | OString string | OEnum string

text \<open>
  The calls the pipeline makes on its collaborators, in the order it makes them: each
  \<^verbatim>\<open>VImage::call\<close> of a loader, the calls on the \<^verbatim>\<open>Target\<close>, the timeout handler, and the
  codec's \<^verbatim>\<open>write_to_target\<close>.
\<close>

datatype event =
    Call string bool VOption
  | Target_setup string
  | Target_write string
  | Target_end
  | Setup_timeout_handler int
  | Codec_write_to_target string VImage "(string \<times> ovalue) list"

text \<open>
  The exceptions: those of \<^verbatim>\<open>exceptions::\<close> (the two that the source builds a message for
  carry it), and the two that the standard library throws in \<^verbatim>\<open>write_to_target\<close>.
\<close>

datatype error =
    InvalidImage
  | UnreadableImage
  | TooLargeImage string
  | UnsupportedSaver string
  | Std_length_error
  | Std_out_of_range

subsection \<open>Integers and strings of the standard library\<close>

text \<open>Conversion of an integer to \<^verbatim>\<open>int\<close> (two's complement) and to \<^verbatim>\<open>uint64_t\<close>.\<close>

definition int32 :: "int \<Rightarrow> int" where
  "int32 x = (x + 2 ^ 31) mod 2 ^ 32 - 2 ^ 31"

definition uint64 :: "int \<Rightarrow> int" where
  "uint64 x = x mod 2 ^ 64"

text \<open>\<^verbatim>\<open>static_cast<uint64_t>(a) * b\<close> for two \<^verbatim>\<open>int\<close>s.\<close>

definition pixels :: "int \<Rightarrow> int \<Rightarrow> int" where
  "pixels a b = (uint64 a * uint64 b) mod 2 ^ 64"

text \<open>The operator \<^verbatim>\<open>%\<close> of C++: the remainder of the division that truncates.\<close>

definition rem :: "int \<Rightarrow> int \<Rightarrow> int" where
  "rem a b = sgn a * (\<bar>a\<bar> mod \<bar>b\<bar>)"

text \<open>\<^verbatim>\<open>std::clamp(v, lo, hi)\<close>.\<close>

definition clamp :: "int \<Rightarrow> int \<Rightarrow> int \<Rightarrow> int" where
  "clamp v lo hi = (if v < lo then lo else if hi < v then hi else v)"

text \<open>\<^verbatim>\<open>std::to_string\<close> of an integer.\<close>

fun digits :: "nat \<Rightarrow> string" where
  "digits k = (if k < 10 then [''0123456789'' ! k]
               else digits (k div 10) @ [''0123456789'' ! (k mod 10)])"

definition to_string :: "int \<Rightarrow> string" where
  "to_string i = (if i < 0 then CHR ''-'' # digits (nat (- i)) else digits (nat i))"

subsection \<open>Single precision\<close>

text \<open>
  The value of a \<^verbatim>\<open>float\<close>: a rational number, an infinity (\<open>True\<close> for the negative one)
  or a NaN. With the exponent field \<open>e\<close> and the fraction field \<open>f\<close>, a normal number is
  \<open>(2^23 + f) * 2^(e - 150)\<close> and a subnormal one (\<open>e = 0\<close>) is \<open>f * 2^(-149)\<close>.
\<close>

datatype fval = Finite rat | Infinity bool | NaN

definition pow2 :: "int \<Rightarrow> rat" where
  "pow2 k = (if 0 \<le> k then 2 ^ nat k else 1 / 2 ^ nat (- k))"

definition valof :: "float32 \<Rightarrow> fval" where
  "valof w =
     (let bits = unat w;
          negative = (bits div 2 ^ 31 = 1);
          e = bits div 2 ^ 23 mod 256;
          f = bits mod 2 ^ 23
      in if e = 255 then (if f = 0 then Infinity negative else NaN)
         else if e = 0 then Finite ((if negative then - 1 else 1) * of_nat f * pow2 (- 149))
         else Finite ((if negative then - 1 else 1) * of_nat (2 ^ 23 + f) * pow2 (int e - 150)))"

text \<open>
  The number of bits of a natural number, and with it the exponent of a positive rational
  number \<open>x\<close>: the integer \<open>k\<close> with \<open>2^k \<le> x < 2^(k + 1)\<close>.
\<close>

fun bitlen :: "nat \<Rightarrow> nat" where
  "bitlen n = (if n = 0 then 0 else Suc (bitlen (n div 2)))"

declare bitlen.simps [simp del]

definition ilog2 :: "rat \<Rightarrow> int" where
  "ilog2 x = (if 1 \<le> x then int (bitlen (nat \<lfloor>x\<rfloor>)) - 1
              else - int (bitlen (nat (\<lceil>1 / x\<rceil> - 1))))"

text \<open>Rounding to the nearest integer, a tie going to the even one.\<close>

definition round_half_even :: "rat \<Rightarrow> int" where
  "round_half_even x =
     (let f = \<lfloor>x\<rfloor>; d = x - of_int f
      in if d < 1 / 2 then f else if 1 / 2 < d then f + 1 else if even f then f else f + 1)"

text \<open>
  The rounding of every single-precision operation (round to nearest, ties to even): the
  nearest multiple of the unit in the last place, which is \<open>2^(k - 23)\<close> for a number of
  exponent \<open>k \<ge> -126\<close> and \<open>2^(-149)\<close> below. The overflow to an infinity (from \<open>2^128\<close>
  on) is left out: \<open>round_scaled\<close> below converts the result to an \<^verbatim>\<open>int\<close>, where every
  magnitude from \<open>2^31\<close> on has the same outcome.
\<close>

definition nearest32 :: "rat \<Rightarrow> rat" where
  "nearest32 x =
     (if x = 0 then 0
      else let e = max (ilog2 \<bar>x\<bar>) (- 126); ulp = pow2 (e - 23)
           in of_int (round_half_even (x / ulp)) * ulp)"

text \<open>\<^verbatim>\<open>std::round\<close>: to the nearest integer, a tie going away from zero.\<close>

definition std_round :: "rat \<Rightarrow> int" where
  "std_round x = (if 0 \<le> x then \<lfloor>x + 1 / 2\<rfloor> else - \<lfloor>- x + 1 / 2\<rfloor>)"

text \<open>
  \<^verbatim>\<open>static_cast<int>\<close> of a \<^verbatim>\<open>float\<close> that holds an integer. Out of the range of \<^verbatim>\<open>int\<close> the
  behaviour of the C++ is undefined; the model takes what the conversion instruction of
  x86 returns, the least \<^verbatim>\<open>int\<close>, also for an infinity and a NaN.
\<close>

definition int_of_float :: "int \<Rightarrow> int" where
  "int_of_float v = (if - (2 ^ 31) \<le> v \<and> v < 2 ^ 31 then v else - (2 ^ 31))"

text \<open>The literal \<^verbatim>\<open>-1.0F\<close>.\<close>

definition minus_one_F :: float32 where
  "minus_one_F = 0xBF800000"

text \<open>
  \<^verbatim>\<open>pixel_ratio >= 0 && pixel_ratio <= 8\<close>: the comparisons are exact, and false for a NaN.
\<close>

definition pixel_ratio_in_range :: "float32 \<Rightarrow> bool" where
  "pixel_ratio_in_range r = (case valof r of Finite x \<Rightarrow> 0 \<le> x \<and> x \<le> 8 | _ \<Rightarrow> False)"

text \<open>
  \<^verbatim>\<open>static_cast<int>(std::round(static_cast<float>(d) * pixel_ratio))\<close> for an \<^verbatim>\<open>int\<close> \<open>d\<close>:
  the conversion of \<open>d\<close> and the product are each rounded to single precision.
\<close>

definition round_scaled :: "int \<Rightarrow> float32 \<Rightarrow> int" where
  "round_scaled d r =
     (case valof r of
        Finite x \<Rightarrow> int_of_float (std_round (nearest32 (nearest32 (of_int d) * x)))
      | _ \<Rightarrow> - (2 ^ 31))"

subsection \<open>Parameter store\<close>

text \<open>A value of the query: the typed alternatives the source reads and writes.\<close>

datatype qvalue =
    VInt int
  | VBool bool
  | VFloat float32
  | VVector "int list"
  | VCoordinate Coordinate
  | VOutput Output

type_synonym Query = "string \<rightharpoonup> qvalue"

fun as_int :: "qvalue \<Rightarrow> int option" where
  "as_int (VInt i) = Some i"
| "as_int _ = None"

fun as_bool :: "qvalue \<Rightarrow> bool option" where
  "as_bool (VBool b) = Some b"
| "as_bool _ = None"

fun as_float :: "qvalue \<Rightarrow> float32 option" where
  "as_float (VFloat r) = Some r"
| "as_float _ = None"

fun as_vector :: "qvalue \<Rightarrow> int list option" where
  "as_vector (VVector v) = Some v"
| "as_vector _ = None"

fun as_Coordinate :: "qvalue \<Rightarrow> Coordinate option" where
  "as_Coordinate (VCoordinate c) = Some c"
| "as_Coordinate _ = None"

fun as_Output :: "qvalue \<Rightarrow> Output option" where
  "as_Output (VOutput out) = Some out"
| "as_Output _ = None"

text \<open>
  Modelled from the spec: \<^verbatim>\<open>get<T>(key, default)\<close> of the Parameter Store
  (\<^verbatim>\<open>parsers::Query\<close>, whose header is not in the source). It returns the value if present
  and of type \<^verbatim>\<open>T\<close>, else the default, and never fails. The first argument stands for the
  template argument \<^verbatim>\<open>T\<close>.
\<close>

definition get :: "(qvalue \<Rightarrow> 'a option) \<Rightarrow> Query \<Rightarrow> string \<Rightarrow> 'a \<Rightarrow> 'a" where
  "get T q key default_val =
     (case q key of
        None \<Rightarrow> default_val
      | Some v \<Rightarrow> (case T v of None \<Rightarrow> default_val | Some x \<Rightarrow> x))"

text \<open>
  Modelled from the spec: \<^verbatim>\<open>get_if<T>(key, validator, default)\<close> of the Parameter Store.
  It also falls back to the default when the value fails the validator.
\<close>

definition get_if :: "(qvalue \<Rightarrow> 'a option) \<Rightarrow> Query \<Rightarrow> string \<Rightarrow> ('a \<Rightarrow> bool) \<Rightarrow> 'a \<Rightarrow> 'a" where
  "get_if T q key predicate default_val =
     (case q key of
        None \<Rightarrow> default_val
      | Some v \<Rightarrow>
          (case T v of
             None \<Rightarrow> default_val
           | Some x \<Rightarrow> if predicate x then x else default_val))"

text \<open>
  Modelled from the spec: \<^verbatim>\<open>update(key, value)\<close> of the Parameter Store. It sets the value,
  whether the key was present or not.
\<close>

definition update :: "Query \<Rightarrow> string \<Rightarrow> qvalue \<Rightarrow> Query" where
  "update q key val = q(key \<mapsto> val)"

text \<open>The state a request threads through the pipeline: its query and the calls made so far.\<close>

record state =
  query :: Query
  trace :: "event list"

section \<open>Page selection\<close>

text \<open>
  \<^verbatim>\<open>Stream::get_page_load_options\<close>: the pair \<open>(n, page)\<close> for an image of
  \<open>n_pages\<close> pages.
\<close>

definition get_page_load_options :: "Query \<Rightarrow> int \<Rightarrow> int \<times> int" where
  "get_page_load_options q n_pages =
     (if n_pages = 1 then (1, 0)
      else
        let page = get_if as_int q ''page''
                     (\<lambda>p. p = - 1 \<or> p = - 2 \<or> (p \<ge> 0 \<and> p \<le> n_pages)) 0
        in if page = - 1 \<or> page = - 2 then (1, page)
           else
             let n = get_if as_int q ''n''
                       (\<lambda>n. n = - 1 \<or> (n \<ge> 1 \<and> n \<le> n_pages)) 1
             in if n = - 1 then (n_pages - page, page) else (n, page))"

section \<open>Decoding\<close>

text \<open>
  The overload \<^verbatim>\<open>new_from_source(source, blob, loader, options)\<close>: one call of the loader,
  on the buffer when the blob is not null; a \<^verbatim>\<open>VError\<close> becomes \<^verbatim>\<open>UnreadableImageException\<close>.
\<close>

definition new_from_source_loader ::
  "vips \<Rightarrow> bool \<Rightarrow> string \<Rightarrow> VOption \<Rightarrow> event list \<Rightarrow> (error + VImage) \<times> event list" where
  "new_from_source_loader v blob loader options tr =
     (case call v loader blob options of
        None \<Rightarrow> (Inl UnreadableImage, tr @ [Call loader blob options])
      | Some out_image \<Rightarrow> (Inr out_image, tr @ [Call loader blob options]))"

text \<open>
  \<^verbatim>\<open>Stream::resolve_page\<close>. The loop \<^verbatim>\<open>for (int i = 1; i < n_pages; ++i)\<close> with its state: the
  running best size and its page.
\<close>

function resolve_page_loop ::
  "vips \<Rightarrow> Config \<Rightarrow> bool \<Rightarrow> string \<Rightarrow> (int \<Rightarrow> int \<Rightarrow> bool) \<Rightarrow> int \<Rightarrow>
   int \<Rightarrow> int \<Rightarrow> int \<Rightarrow> event list \<Rightarrow> (error + int) \<times> event list" where
  "resolve_page_loop v cfg blob loader cmp n_pages i best target_page tr =
     (if i < n_pages then
        (case new_from_source_loader v blob loader
                \<lparr>opt_access = VIPS_ACCESS_SEQUENTIAL, opt_fail = (fail_on_error cfg = 1),
                 opt_n = None, opt_page = Some i\<rparr> tr of
           (Inl e, tr') \<Rightarrow> (Inl e, tr')
         | (Inr image_page, tr') \<Rightarrow>
             (let page_size = pixels (height image_page) (width image_page)
              in if cmp page_size best
                 then resolve_page_loop v cfg blob loader cmp n_pages (i + 1) page_size i tr'
                 else resolve_page_loop v cfg blob loader cmp n_pages (i + 1) best target_page tr'))
      else (Inr target_page, tr))"
  by pat_completeness auto
termination
  by (relation "measure (\<lambda>(v, cfg, blob, loader, cmp, n_pages, i, best, target_page, tr).
                  nat (n_pages - i))") auto

declare resolve_page_loop.simps [simp del]

definition resolve_page ::
  "vips \<Rightarrow> Config \<Rightarrow> VImage \<Rightarrow> int \<Rightarrow> bool \<Rightarrow> string \<Rightarrow> (int \<Rightarrow> int \<Rightarrow> bool) \<Rightarrow>
   event list \<Rightarrow> (error + int) \<times> event list" where
  "resolve_page v cfg img n_pages blob loader cmp tr =
     resolve_page_loop v cfg blob loader cmp n_pages 1
       (pixels (height img) (width img)) 0 tr"

text \<open>
  \<^verbatim>\<open>Stream::new_from_source(source)\<close>, first block: the loader, from the source or else
  from the blob of the whole input.
\<close>

definition find_loader :: "vips \<Rightarrow> error + bool \<times> string" where
  "find_loader v =
     (case vips_foreign_find_load_source v of
        Some loader \<Rightarrow> Inr (False, loader)
      | None \<Rightarrow>
          if \<not> vips_source_map_blob v then Inl InvalidImage
          else (case vips_foreign_find_load_buffer v of
                  None \<Rightarrow> Inl InvalidImage
                | Some loader \<Rightarrow> Inr (True, loader)))"

text \<open>
  \<^verbatim>\<open>Stream::new_from_source(source)\<close>, second block: the first load, the page load options,
  the limit on the number of pages, the scan for the largest or smallest page, and the
  load of the pages asked for. It yields the image with the resolved \<open>n\<close> and \<open>page\<close>.
\<close>

definition load_pages ::
  "vips \<Rightarrow> Config \<Rightarrow> Query \<Rightarrow> bool \<Rightarrow> string \<Rightarrow> event list \<Rightarrow>
   (error + VImage \<times> int \<times> int) \<times> event list" where
  "load_pages v cfg q blob loader tr =
     (let access_method = (if get as_int q ''trim'' 0 \<noteq> 0 then VIPS_ACCESS_RANDOM
                           else VIPS_ACCESS_SEQUENTIAL)
      in case new_from_source_loader v blob loader
                \<lparr>opt_access = access_method, opt_fail = (fail_on_error cfg = 1),
                 opt_n = None, opt_page = None\<rparr> tr of
           (Inl e, tr1) \<Rightarrow> (Inl e, tr1)
         | (Inr img, tr1) \<Rightarrow>
             (let n_pages = (case meta_n_pages img of Some k \<Rightarrow> k | None \<Rightarrow> 1);
                  (n, page) = get_page_load_options q n_pages
              in if n \<noteq> 1 \<or> page \<noteq> 0 then
                   if max_pages cfg > 0 \<and> n > max_pages cfg then
                     (Inl (TooLargeImage
                            (''Input image exceeds the maximum number of pages. '' @
                             ''Number of pages should be less than '' @
                             to_string (max_pages cfg))), tr1)
                   else
                     (case (if page = - 1 then
                              resolve_page v cfg img n_pages blob loader (\<lambda>a b. a > b) tr1
                            else if page = - 2 then
                              resolve_page v cfg img n_pages blob loader (\<lambda>a b. a < b) tr1
                            else (Inr page, tr1)) of
                        (Inl e, tr2) \<Rightarrow> (Inl e, tr2)
                      | (Inr page', tr2) \<Rightarrow>
                          (case new_from_source_loader v blob loader
                                  \<lparr>opt_access = access_method,
                                   opt_fail = (fail_on_error cfg = 1),
                                   opt_n = Some n, opt_page = Some page'\<rparr> tr2 of
                             (Inl e, tr3) \<Rightarrow> (Inl e, tr3)
                           | (Inr img', tr3) \<Rightarrow> (Inr (img', n, page'), tr3)))
                 else (Inr (img, n, page), tr1)))"

section \<open>Orientation and target dimensions\<close>

text \<open>
  \<^verbatim>\<open>Stream::resolve_query\<close>. The additions to \<^verbatim>\<open>rotate\<close> are additions of \<^verbatim>\<open>int\<close>: past
  \<open>2^31 - 1\<close> the behaviour of the C++ is undefined, and the model takes the
  two's-complement result.
\<close>

definition resolve_query :: "utils \<Rightarrow> Query \<Rightarrow> VImage \<Rightarrow> Query" where
  "resolve_query u q img =
     (let rotate = get_if as_int q ''ro'' (\<lambda>r. rem r 90 = 0) 0;
          flip = get as_bool q ''flip'' False;
          flop = get as_bool q ''flop'' False;
          exif = exif_orientation u img;
          (rotate, flip, flop) =
            (if exif = 6 then (int32 (rotate + 90), flip, flop)
             else if exif = 3 then (int32 (rotate + 180), flip, flop)
             else if exif = 8 then (int32 (rotate + 270), flip, flop)
             else if exif = 2 then (rotate, flip, True)
             else if exif = 7 then (int32 (rotate + 90), True, flop)
             else if exif = 4 then (int32 (rotate + 180), flip, True)
             else if exif = 5 then (int32 (rotate + 270), True, flop)
             else (rotate, flip, flop));
          angle = rem rotate 360;
          angle = (if angle < 0 then 360 + angle else angle);
          q = update q ''angle'' (VInt angle);
          q = update q ''flip'' (VBool flip);
          q = update q ''flop'' (VBool flop);
          image_width = width img;
          image_height = height img;
          target_width =
            to_pixels u (get as_Coordinate q ''w'' (Coordinate_INVALID u)) image_width;
          target_height =
            to_pixels u (get as_Coordinate q ''h'' (Coordinate_INVALID u)) image_height;
          pixel_ratio = get as_float q ''dpr'' minus_one_F;
          (target_width, target_height) =
            (if pixel_ratio_in_range pixel_ratio
             then (round_scaled target_width pixel_ratio,
                   round_scaled target_height pixel_ratio)
             else (target_width, target_height));
          (target_width, target_height) =
            (if exif > 4 \<and> \<not> get as_bool q ''precrop'' False
             then (target_height, target_width)
             else (target_width, target_height));
          q = update q ''w'' (VInt (clamp target_width 0 (VIPS_MAX_COORD u)));
          q = update q ''h'' (VInt (clamp target_height 0 (VIPS_MAX_COORD u)));
          q = update q ''input_width'' (VInt image_width);
          q = update q ''input_height'' (VInt image_height)
      in q)"

text \<open>
  \<^verbatim>\<open>Stream::new_from_source(source)\<close>: the loader, the image type, the pages, the limit on
  the number of pixels, the page load options stored, and \<^verbatim>\<open>resolve_query\<close>.
\<close>

definition new_from_source ::
  "vips \<Rightarrow> utils \<Rightarrow> Config \<Rightarrow> state \<Rightarrow> (error + VImage) \<times> state" where
  "new_from_source v u cfg st =
     (case find_loader v of
        Inl e \<Rightarrow> (Inl e, st)
      | Inr (blob, loader) \<Rightarrow>
          (let image_type = determine_image_type u loader;
               q = update (query st) ''type'' (VInt image_type)
           in case load_pages v cfg q blob loader (trace st) of
                (Inl e, tr) \<Rightarrow> (Inl e, \<lparr>query = q, trace = tr\<rparr>)
              | (Inr (img, n, page), tr) \<Rightarrow>
                  if limit_input_pixels cfg > 0 \<and>
                     pixels (width img) (height img) > limit_input_pixels cfg
                  then (Inl (TooLargeImage
                              (''Input image exceeds pixel limit. '' @
                               ''Width x height should be less than '' @
                               to_string (limit_input_pixels cfg))),
                        \<lparr>query = q, trace = tr\<rparr>)
                  else
                    (let q = update q ''n'' (VInt n);
                         q = update q ''page'' (VInt page)
                     in (Inr img, \<lparr>query = resolve_query u q img, trace = tr\<rparr>))))"

section \<open>Encoding\<close>

text \<open>
  The specialisations of \<^verbatim>\<open>Stream::append_save_options\<close>, one for each output, and the
  function that chooses among them. The save options are the list of the pairs set, in
  the order of the calls of \<^verbatim>\<open>set\<close>.
\<close>

definition append_save_options_Jpeg ::
  "Config \<Rightarrow> Query \<Rightarrow> (string \<times> ovalue) list \<Rightarrow> (string \<times> ovalue) list" where
  "append_save_options_Jpeg cfg q options =
     (let quality = get_if as_int q ''q'' (\<lambda>q. q \<ge> 1 \<and> q \<le> 100) (jpeg_quality cfg)
      in options @ [(''Q'', OInt quality),
                    (''interlace'', OBool (get as_bool q ''il'' False)),
                    (''optimize_coding'', OBool True)])"

definition append_save_options_Png ::
  "Config \<Rightarrow> Query \<Rightarrow> (string \<times> ovalue) list \<Rightarrow> (string \<times> ovalue) list" where
  "append_save_options_Png cfg q options =
     (let level = get_if as_int q ''l'' (\<lambda>l. l \<ge> 0 \<and> l \<le> 9) (zlib_level cfg);
          filter_opt = (if get as_bool q ''af'' False then OEnum ''VIPS_FOREIGN_PNG_FILTER_ALL''
                        else OEnum ''VIPS_FOREIGN_PNG_FILTER_NONE'')
      in options @ [(''interlace'', OBool (get as_bool q ''il'' False)),
                    (''compression'', OInt level),
                    (''filter'', filter_opt)])"

definition append_save_options_Webp ::
  "Config \<Rightarrow> Query \<Rightarrow> (string \<times> ovalue) list \<Rightarrow> (string \<times> ovalue) list" where
  "append_save_options_Webp cfg q options =
     (let quality = get_if as_int q ''q'' (\<lambda>q. q \<ge> 1 \<and> q \<le> 100) (webp_quality cfg)
      in options @ [(''lossless'', OBool (get as_bool q ''ll'' False)),
                    (''Q'', OInt quality),
                    (''effort'', OInt (webp_effort cfg))])"

definition append_save_options_Avif ::
  "Config \<Rightarrow> Query \<Rightarrow> (string \<times> ovalue) list \<Rightarrow> (string \<times> ovalue) list" where
  "append_save_options_Avif cfg q options =
     (let quality = get_if as_int q ''q'' (\<lambda>q. q \<ge> 1 \<and> q \<le> 100) (avif_quality cfg)
      in options @ [(''Q'', OInt quality),
                    (''compression'', OEnum ''VIPS_FOREIGN_HEIF_COMPRESSION_AV1''),
                    (''effort'', OInt (avif_effort cfg))])"

definition append_save_options_Tiff ::
  "Config \<Rightarrow> Query \<Rightarrow> (string \<times> ovalue) list \<Rightarrow> (string \<times> ovalue) list" where
  "append_save_options_Tiff cfg q options =
     (let quality = get_if as_int q ''q'' (\<lambda>q. q \<ge> 1 \<and> q \<le> 100) (tiff_quality cfg)
      in options @ [(''Q'', OInt quality),
                    (''compression'', OString ''jpeg'')])"

definition append_save_options_Gif ::
  "Config \<Rightarrow> Query \<Rightarrow> (string \<times> ovalue) list \<Rightarrow> (string \<times> ovalue) list" where
  "append_save_options_Gif cfg q options = options @ [(''effort'', OInt (gif_effort cfg))]"

fun append_save_options ::
  "Config \<Rightarrow> Query \<Rightarrow> Output \<Rightarrow> (string \<times> ovalue) list \<Rightarrow> (string \<times> ovalue) list" where
  "append_save_options cfg q Jpeg options = append_save_options_Jpeg cfg q options"
| "append_save_options cfg q Webp options = append_save_options_Webp cfg q options"
| "append_save_options cfg q Avif options = append_save_options_Avif cfg q options"
| "append_save_options cfg q Tiff options = append_save_options_Tiff cfg q options"
| "append_save_options cfg q Gif options = append_save_options_Gif cfg q options"
| "append_save_options cfg q _ options = append_save_options_Png cfg q options"

text \<open>
  \<^verbatim>\<open>Stream::write_to_target\<close>, first block: the copy of the image and the metadata set on
  it (page height, loop, delays).

  The one-argument \<^verbatim>\<open>get<int>(key)\<close> has no default in the source; the store of the spec
  never fails, and what it answers for an absent key is the parameter \<open>absent\<close>.

  The count of \<^verbatim>\<open>delays.insert(delays.end(), n - 1, delays[0])\<close> is a \<^verbatim>\<open>size_type\<close>: a
  negative \<^verbatim>\<open>n - 1\<close> converts to a count beyond \<^verbatim>\<open>max_size()\<close>, and \<^verbatim>\<open>insert\<close> throws
  \<^verbatim>\<open>std::length_error\<close>. (The subtraction leaves the range of \<^verbatim>\<open>int\<close> only for the least
  \<^verbatim>\<open>int\<close>, a page count that no load yields; it is not wrapped.)
\<close>

definition attach_metadata :: "int \<Rightarrow> Query \<Rightarrow> VImage \<Rightarrow> error + VImage" where
  "attach_metadata absent q img =
     (let copy = img;
          copy = (if get as_int q ''n'' absent > 1
                  then copy\<lparr>meta_page_height := Some (get as_int q ''page_height'' absent)\<rparr>
                  else copy);
          loop = get as_int q ''loop'' (- 1);
          copy = (if loop \<ge> 0 then copy\<lparr>meta_loop := Some loop\<rparr> else copy);
          delays = get_if as_vector q ''delay'' (list_all (\<lambda>d. d \<ge> 0)) []
      in if delays \<noteq> [] then
           if length delays = 1 then
             (let count = get as_int q ''n'' absent - 1
              in if count < 0 then Inl Std_length_error
                 else Inr (copy\<lparr>meta_delay :=
                                  Some (delays @ replicate (nat count) (delays ! 0))\<rparr>))
           else Inr (copy\<lparr>meta_delay := Some delays\<rparr>)
         else Inr copy)"

text \<open>\<^verbatim>\<open>Stream::write_to_target\<close>, second block: the output format.\<close>

definition negotiate_output :: "utils \<Rightarrow> Query \<Rightarrow> VImage \<Rightarrow> Output" where
  "negotiate_output u q copy =
     (let output = get as_Output q ''output'' Origin;
          image_type = get as_int q ''type'' (ImageType_Unknown u)
      in if output = Origin then
           (if support_alpha_channel u image_type \<or> \<not> has_alpha copy
            then to_output u image_type
            else Png)
         else output)"

text \<open>
  \<^verbatim>\<open>Stream::write_to_target\<close>: the metadata, the output format, the check of the savers
  enabled, and the write. \<^verbatim>\<open>extension.substr(1)\<close> throws \<^verbatim>\<open>std::out_of_range\<close> on an empty
  extension.
\<close>

definition write_to_target ::
  "utils \<Rightarrow> Config \<Rightarrow> int \<Rightarrow> Query \<Rightarrow> VImage \<Rightarrow> event list \<Rightarrow> (error + unit) \<times> event list" where
  "write_to_target u cfg absent q img tr =
     (case attach_metadata absent q img of
        Inl e \<Rightarrow> (Inl e, tr)
      | Inr copy \<Rightarrow>
          (let output = negotiate_output u q copy;
               image_type = get as_int q ''type'' (ImageType_Unknown u);
               extension = determine_image_extension u output
           in if savers cfg AND Output_value u output = 0 then
                (if length extension < 1 then (Inl Std_out_of_range, tr)
                 else (Inl (UnsupportedSaver
                             (''Saving to '' @ drop 1 extension @
                              '' is disabled. Supported savers: '' @
                              supported_savers_string u (savers cfg))), tr))
              else if output = Json then
                (let out = image_to_json u copy image_type
                 in (Inr (), tr @ [Target_setup extension, Target_write out, Target_end]))
              else
                (let save_options = append_save_options cfg q output [(''strip'', OBool True)]
                 in (Inr (), tr @ [Target_setup extension,
                                   Setup_timeout_handler (process_timeout cfg),
                                   Codec_write_to_target extension copy save_options]))))"

section \<open>Notions used in the properties\<close>

text \<open>
  The options of the loads of \<^verbatim>\<open>new_from_source\<close> (the first load has neither \<^verbatim>\<open>n\<close> nor
  \<^verbatim>\<open>page\<close>), the options of the load of page \<open>i\<close> in \<^verbatim>\<open>resolve_page\<close>, and the calls
  that the scan of the pages \<open>i, ..., P - 1\<close> makes.
\<close>

definition load_options :: "Query \<Rightarrow> Config \<Rightarrow> int option \<Rightarrow> int option \<Rightarrow> VOption" where
  "load_options q cfg n page =
     \<lparr>opt_access = (if get as_int q ''trim'' 0 \<noteq> 0 then VIPS_ACCESS_RANDOM
                     else VIPS_ACCESS_SEQUENTIAL),
      opt_fail = (fail_on_error cfg = 1), opt_n = n, opt_page = page\<rparr>"

definition scan_options :: "Config \<Rightarrow> int \<Rightarrow> VOption" where
  "scan_options cfg i =
     \<lparr>opt_access = VIPS_ACCESS_SEQUENTIAL, opt_fail = (fail_on_error cfg = 1),
      opt_n = None, opt_page = Some i\<rparr>"

definition scan_calls :: "Config \<Rightarrow> bool \<Rightarrow> string \<Rightarrow> int \<Rightarrow> int \<Rightarrow> event list" where
  "scan_calls cfg blob loader i P = map (\<lambda>j. Call loader blob (scan_options cfg j)) [i..P - 1]"

text \<open>The number of pages that \<^verbatim>\<open>new_from_source\<close> reads from the first image.\<close>

definition n_pages_of :: "VImage \<Rightarrow> int" where
  "n_pages_of img = (case meta_n_pages img of Some k \<Rightarrow> k | None \<Rightarrow> 1)"

text \<open>The messages of the three exceptions that carry one.\<close>

definition pages_message :: "Config \<Rightarrow> string" where
  "pages_message cfg =
     ''Input image exceeds the maximum number of pages. Number of pages should be less than '' @
     to_string (max_pages cfg)"

definition pixels_message :: "Config \<Rightarrow> string" where
  "pixels_message cfg =
     ''Input image exceeds pixel limit. Width x height should be less than '' @
     to_string (limit_input_pixels cfg)"

definition saver_message :: "utils \<Rightarrow> Config \<Rightarrow> Output \<Rightarrow> string" where
  "saver_message u cfg output =
     ''Saving to '' @ drop 1 (determine_image_extension u output) @
     '' is disabled. Supported savers: '' @ supported_savers_string u (savers cfg)"

text \<open>The rotation that an EXIF orientation adds in \<^verbatim>\<open>resolve_query\<close>.\<close>

definition exif_rotation :: "int \<Rightarrow> int" where
  "exif_rotation exif =
     (if exif = 6 \<or> exif = 7 then 90
      else if exif = 3 \<or> exif = 4 then 180
      else if exif = 8 \<or> exif = 5 then 270
      else 0)"

text \<open>
  The invariant of the scan: among the pages \<open>0, ..., i - 1\<close>, with sizes \<open>A\<close>, no page
  beats page \<open>t\<close>, and page \<open>t\<close> beats every page before it.
\<close>

definition first_best :: "(int \<Rightarrow> int \<Rightarrow> bool) \<Rightarrow> (int \<Rightarrow> int) \<Rightarrow> int \<Rightarrow> int \<Rightarrow> bool" where
  "first_best cmp A i t \<longleftrightarrow>
     0 \<le> t \<and> (\<forall>j. 0 \<le> j \<and> j < i \<longrightarrow> \<not> cmp (A j) (A t)) \<and> (\<forall>j. 0 \<le> j \<and> j < t \<longrightarrow> cmp (A t) (A j))"

text \<open>
  The scaling of a dimension as the specification words it, to compare with \<open>round_scaled\<close>:
  the product of the dimension and the pixel ratio, rounded to the nearest integer.
\<close>

definition scaled_exact :: "int \<Rightarrow> rat \<Rightarrow> int" where
  "scaled_exact d x = std_round (of_int d * x)"

subsection \<open>Example inputs\<close>

text \<open>
  A source of three pages of sizes \<open>4 x 4\<close>, \<open>5 x 5\<close> and \<open>5 x 5\<close> that a streaming loader
  reads, a configuration that allows two pages and enables the savers of values 1 and 2,
  and sample collaborators in which only type 2 carries alpha.
\<close>

definition ex_page :: "int \<Rightarrow> VImage" where
  "ex_page i =
     \<lparr>width = (if i = 0 then 4 else 5), height = (if i = 0 then 4 else 5), has_alpha = False,
      meta_n_pages = Some 3, meta_page_height = None, meta_loop = None, meta_delay = None\<rparr>"

definition ex_vips :: vips where
  "ex_vips =
     \<lparr>vips_foreign_find_load_source = Some ''gifload_source'',
      vips_source_map_blob = False,
      vips_foreign_find_load_buffer = None,
      call = (\<lambda>loader blob options.
                case opt_page options of
                  None \<Rightarrow> Some (ex_page 0)
                | Some i \<Rightarrow> if 0 \<le> i \<and> i < 3 then Some (ex_page i) else None)\<rparr>"

definition ex_cfg :: Config where
  "ex_cfg =
     \<lparr>fail_on_error = 0, max_pages = 2, limit_input_pixels = 71000000, savers = 3,
      process_timeout = 10, jpeg_quality = 80, zlib_level = 6, webp_quality = 80,
      webp_effort = 4, avif_quality = 80, avif_effort = 4, tiff_quality = 80, gif_effort = 7\<rparr>"

definition ex_utils :: utils where
  "ex_utils =
     \<lparr>exif_orientation = (\<lambda>img. 0),
      determine_image_type = (\<lambda>loader. 1),
      support_alpha_channel = (\<lambda>t. t = 2),
      to_output = (\<lambda>t. if t = 2 then Webp else Jpeg),
      determine_image_extension =
        (\<lambda>out. case out of Jpeg \<Rightarrow> ''.jpg'' | Webp \<Rightarrow> ''.webp'' | Avif \<Rightarrow> ''.avif''
                | Tiff \<Rightarrow> ''.tiff'' | Gif \<Rightarrow> ''.gif'' | Json \<Rightarrow> ''.json'' | _ \<Rightarrow> ''.png''),
      supported_savers_string = (\<lambda>s. ''jpg, png''),
      image_to_json = (\<lambda>img t. ''{}''),
      Output_value =
        (\<lambda>out. case out of Origin \<Rightarrow> 0 | Jpeg \<Rightarrow> 1 | Png \<Rightarrow> 2 | Webp \<Rightarrow> 4 | Avif \<Rightarrow> 8
                | Tiff \<Rightarrow> 16 | Gif \<Rightarrow> 32 | Json \<Rightarrow> 64),
      ImageType_Unknown = 0,
      Coordinate_INVALID = undefined,
      to_pixels = (\<lambda>c d. d),
      VIPS_MAX_COORD = 10000000\<rparr>"

section \<open>Properties\<close>

subsection \<open>Page load options\<close>

text \<open>
  C2. For a multi-page input (\<open>P > 1\<close>), a requested page \<open>p\<close> in \<open>{0..P-1}\<close>
  together with a requested \<open>n\<close> in \<open>{1..P-p}\<close> is returned unchanged as \<open>(n, p)\<close>;
  and with \<open>n = -1\<close> requested and a page \<open>p\<close> that passes the validator
  (\<open>0 \<le> p \<le> P\<close>), the resolved \<open>n\<close> is exactly \<open>P - p\<close>.
\<close>

theorem get_page_load_options_valid:
  assumes "1 < P"
  shows "(0 \<le> p \<and> p < P \<and> 1 \<le> n \<and> n \<le> P - p \<and>
            q ''page'' = Some (VInt p) \<and> q ''n'' = Some (VInt n)
          \<longrightarrow> get_page_load_options q P = (n, p))
       \<and> (0 \<le> p \<and> p \<le> P \<and>
            q ''page'' = Some (VInt p) \<and> q ''n'' = Some (VInt (- 1))
          \<longrightarrow> get_page_load_options q P = (P - p, p))"
  using assms by (auto simp: get_page_load_options_def get_if_def Let_def)

theorem get_page_load_options_valid_witness:
  "get_page_load_options [''page'' \<mapsto> VInt 1, ''n'' \<mapsto> VInt 2] 3 = (2, 1)
   \<and> get_page_load_options [''page'' \<mapsto> VInt 1, ''n'' \<mapsto> VInt (- 1)] 3 = (2, 1)"
  using get_page_load_options_valid [of 3 1 2 "[''page'' \<mapsto> VInt 1, ''n'' \<mapsto> VInt 2]"]
        get_page_load_options_valid [of 3 1 2 "[''page'' \<mapsto> VInt 1, ''n'' \<mapsto> VInt (- 1)]"]
  by simp

lemma get_page_load_options_scan:
  assumes "P \<noteq> 1" "q ''page'' = Some (VInt p)" "p = - 1 \<or> p = - 2"
  shows "get_page_load_options q P = (1, p)"
  using assms by (auto simp: get_page_load_options_def get_if_def)

subsection \<open>The scan for the largest or smallest page\<close>

lemma scan_calls_step: "i < P \<Longrightarrow> scan_calls cfg blob loader i P = Call loader blob (scan_options cfg i) # scan_calls cfg blob loader (i + 1) P"
  by (simp add: scan_calls_def upto_rec1)

lemma scan_calls_done: "\<not> i < P \<Longrightarrow> scan_calls cfg blob loader i P = []"
  by (simp add: scan_calls_def)

lemma loop_step:
  assumes "i < P" "call v loader blob (scan_options cfg i) = Some im"
  shows "resolve_page_loop v cfg blob loader cmp P i best t tr =
          (if cmp (pixels (height im) (width im)) best
           then resolve_page_loop v cfg blob loader cmp P (i + 1) (pixels (height im) (width im)) i (tr @ [Call loader blob (scan_options cfg i)])
           else resolve_page_loop v cfg blob loader cmp P (i + 1) best t (tr @ [Call loader blob (scan_options cfg i)]))"
  using assms
  by (subst resolve_page_loop.simps)
     (simp add: new_from_source_loader_def scan_options_def Let_def)

lemma loop_done:
  assumes "\<not> i < P"
  shows "resolve_page_loop v cfg blob loader cmp P i best t tr = (Inr t, tr)"
  using assms by (subst resolve_page_loop.simps) simp

lemma first_best_keep:
  assumes "first_best cmp A i t" "\<not> cmp (A i) (A t)"
  shows "first_best cmp A (i + 1) t"
  unfolding first_best_def
proof (intro conjI allI impI)
  show "0 \<le> t" using assms(1) by (simp add: first_best_def)
next
  fix j assume "0 \<le> j \<and> j < i + 1"
  then have "j = i \<or> (0 \<le> j \<and> j < i)" by arith
  then show "\<not> cmp (A j) (A t)" using assms by (auto simp: first_best_def)
next
  fix j assume "0 \<le> j \<and> j < t"
  then show "cmp (A t) (A j)" using assms(1) by (simp add: first_best_def)
qed

lemma first_best_new_greater:
  assumes "first_best (\<lambda>a b. a > b) A i t" "A i > A t" "0 \<le> i"
  shows "first_best (\<lambda>a b. a > b) A (i + 1) i"
  unfolding first_best_def
proof (intro conjI allI impI)
  show "0 \<le> i" by fact
next
  fix j assume "0 \<le> j \<and> j < i + 1"
  then have "j = i \<or> (0 \<le> j \<and> j < i)" by arith
  then show "\<not> A j > A i"
  proof
    assume "j = i" then show ?thesis by simp
  next
    assume "0 \<le> j \<and> j < i"
    then have "\<not> A j > A t" using assms(1) by (simp add: first_best_def)
    then show ?thesis using assms(2) by linarith
  qed
next
  fix j assume j: "0 \<le> j \<and> j < i"
  then have "\<not> A j > A t" using assms(1) by (simp add: first_best_def)
  then show "A i > A j" using assms(2) by linarith
qed

lemma first_best_new_less:
  assumes "first_best (\<lambda>a b. a < b) A i t" "A i < A t" "0 \<le> i"
  shows "first_best (\<lambda>a b. a < b) A (i + 1) i"
  unfolding first_best_def
proof (intro conjI allI impI)
  show "0 \<le> i" by fact
next
  fix j assume "0 \<le> j \<and> j < i + 1"
  then have "j = i \<or> (0 \<le> j \<and> j < i)" by arith
  then show "\<not> A j < A i"
  proof
    assume "j = i" then show ?thesis by simp
  next
    assume "0 \<le> j \<and> j < i"
    then have "\<not> A j < A t" using assms(1) by (simp add: first_best_def)
    then show ?thesis using assms(2) by linarith
  qed
next
  fix j assume j: "0 \<le> j \<and> j < i"
  then have "\<not> A j < A t" using assms(1) by (simp add: first_best_def)
  then show "A i < A j" using assms(2) by linarith
qed

lemma resolve_page_loop_best:
  fixes A :: "int \<Rightarrow> int"
  assumes new: "\<And>i t. first_best cmp A i t \<Longrightarrow> cmp (A i) (A t) \<Longrightarrow> 0 \<le> i \<Longrightarrow> first_best cmp A (i + 1) i"
    and scans: "\<forall>j. i \<le> j \<and> j < P \<longrightarrow> call v loader blob (scan_options cfg j) = Some (pg j)"
    and A: "\<forall>j. i \<le> j \<and> j < P \<longrightarrow> A j = pixels (height (pg j)) (width (pg j))"
    and i: "t < i" "i \<le> P"
    and best: "best = A t"
    and inv: "first_best cmp A i t"
  shows "\<exists>t'. resolve_page_loop v cfg blob loader cmp P i best t tr
               = (Inr t', tr @ scan_calls cfg blob loader i P)
             \<and> t' < P \<and> first_best cmp A P t'"
  using scans A i best inv
proof (induction "nat (P - i)" arbitrary: i best t tr)
  case 0
  then have "i = P" by simp
  with 0 show ?case
    by (simp add: loop_done scan_calls_done)
next
  case (Suc k)
  then have iP: "i < P" by simp
  have k: "k = nat (P - (i + 1))" using Suc.hyps(2) by simp
  have c: "call v loader blob (scan_options cfg i) = Some (pg i)" using Suc.prems(1) iP by simp
  have Ai: "pixels (height (pg i)) (width (pg i)) = A i" using Suc.prems(2) iP by simp
  have i0: "0 \<le> i" using Suc.prems(3,6) by (simp add: first_best_def)
  have s': "\<forall>j. i + 1 \<le> j \<and> j < P \<longrightarrow> call v loader blob (scan_options cfg j) = Some (pg j)"
    using Suc.prems(1) by simp
  have A': "\<forall>j. i + 1 \<le> j \<and> j < P \<longrightarrow> A j = pixels (height (pg j)) (width (pg j))"
    using Suc.prems(2) by simp
  have iP': "i + 1 \<le> P" using iP by simp
  let ?tr = "tr @ [Call loader blob (scan_options cfg i)]"
  show ?case
  proof (cases "cmp (A i) (A t)")
    case True
    have fb: "first_best cmp A (i + 1) i"
      using new [OF Suc.prems(6) True i0] .
    have "i < i + 1" by simp
    from Suc.hyps(1) [OF k s' A' this iP' refl fb, of ?tr]
    show ?thesis
      using True Suc.prems(5) by (simp add: loop_step [OF iP c] Ai scan_calls_step [OF iP])
  next
    case False
    have fb: "first_best cmp A (i + 1) t"
      using first_best_keep [OF Suc.prems(6) False] .
    have "t < i + 1" using Suc.prems(3) by simp
    from Suc.hyps(1) [OF k s' A' this iP' Suc.prems(5) fb, of ?tr]
    show ?thesis
      using False Suc.prems(5) by (simp add: loop_step [OF iP c] Ai scan_calls_step [OF iP])
  qed
qed

lemma resolve_page_loop_outcome:
  "\<exists>r rest. resolve_page_loop v cfg blob loader cmp P i best t tr = (r, tr @ rest)
            \<and> (r = Inl UnreadableImage \<or> (\<exists>t'. r = Inr t'))
            \<and> (i < P \<longrightarrow> (\<exists>rest'. rest = Call loader blob (scan_options cfg i) # rest'))"
proof (induction "nat (P - i)" arbitrary: i best t tr)
  case 0
  then have "\<not> i < P" by simp
  then show ?case by (simp add: loop_done)
next
  case (Suc k)
  then have iP: "i < P" by simp
  have k: "k = nat (P - (i + 1))" using Suc.hyps(2) by simp
  let ?tr = "tr @ [Call loader blob (scan_options cfg i)]"
  show ?case
  proof (cases "call v loader blob (scan_options cfg i)")
    case None
    then show ?thesis using iP
      by (subst resolve_page_loop.simps)
         (simp add: new_from_source_loader_def scan_options_def)
  next
    case (Some im)
    obtain r rest where
      "resolve_page_loop v cfg blob loader cmp P (i + 1) (pixels (height im) (width im)) i ?tr = (r, ?tr @ rest)
       \<and> (r = Inl UnreadableImage \<or> (\<exists>t'. r = Inr t'))"
      using Suc.hyps(1) [OF k, of "pixels (height im) (width im)" i ?tr] by blast
    moreover obtain r' rest' where
      "resolve_page_loop v cfg blob loader cmp P (i + 1) best t ?tr = (r', ?tr @ rest')
       \<and> (r' = Inl UnreadableImage \<or> (\<exists>t'. r' = Inr t'))"
      using Suc.hyps(1) [OF k, of best t ?tr] by blast
    ultimately show ?thesis
      using iP by (simp add: loop_step [OF iP Some])
  qed
qed

text \<open>The product of two dimensions in the range of a non-negative \<^verbatim>\<open>int\<close> is exact.\<close>

lemma pixels_eq:
  assumes "0 \<le> a" "a < 2 ^ 31" "0 \<le> b" "b < 2 ^ 31"
  shows "pixels a b = a * b"
proof -
  have "a * b \<le> 2 ^ 31 * 2 ^ 31"
    using assms by (intro mult_mono) simp_all
  then have "a * b < 2 ^ 64" by simp
  moreover have "0 \<le> a * b" using assms by simp
  moreover have "uint64 a = a" "uint64 b = b"
    using assms by (simp_all add: uint64_def)
  ultimately show ?thesis by (simp add: pixels_def)
qed

subsection \<open>Loading the pages\<close>

lemma load_pages_too_many:
  assumes "call v loader blob (load_options q cfg None None) = Some img0"
    and "get_page_load_options q (n_pages_of img0) = (n, p)"
    and "0 < max_pages cfg" "max_pages cfg < n"
  shows "load_pages v cfg q blob loader tr =
           (Inl (TooLargeImage (pages_message cfg)),
            tr @ [Call loader blob (load_options q cfg None None)])"
  using assms
  by (cases "get as_int q ''trim'' 0 = 0")
     (simp_all add: load_pages_def new_from_source_loader_def load_options_def n_pages_of_def
        pages_message_def)

lemma limit_one: "(0 < m \<and> m < (1::int)) = False"
  by arith

lemma load_pages_scan:
  assumes "call v loader blob (load_options q cfg None None) = Some img0"
    and "n_pages_of img0 \<noteq> 1" "q ''page'' = Some (VInt p)"
    and "p = - 1 \<and> cmp = (\<lambda>a b. a > b) \<or> p = - 2 \<and> cmp = (\<lambda>a b. a < b)"
    and "resolve_page v cfg img0 (n_pages_of img0) blob loader cmp
           (tr @ [Call loader blob (load_options q cfg None None)]) = (r, tr2)"
  shows "load_pages v cfg q blob loader tr =
     (case r of
        Inl e \<Rightarrow> (Inl e, tr2)
      | Inr t \<Rightarrow>
          (case call v loader blob (load_options q cfg (Some 1) (Some t)) of
             None \<Rightarrow> (Inl UnreadableImage,
                      tr2 @ [Call loader blob (load_options q cfg (Some 1) (Some t))])
           | Some img' \<Rightarrow> (Inr (img', 1, t),
                      tr2 @ [Call loader blob (load_options q cfg (Some 1) (Some t))])))"
proof -
  have g: "get_page_load_options q (n_pages_of img0) = (1, p)"
    using assms(2-4) by (auto simp: get_page_load_options_scan)
  from assms(4) show ?thesis
  proof
    assume "p = - 1 \<and> cmp = (\<lambda>a b. a > b)"
    then show ?thesis
      using assms(1,5) g
      by (cases "get as_int q ''trim'' 0 = 0")
         (simp_all add: load_pages_def new_from_source_loader_def load_options_def
            n_pages_of_def limit_one split: option.split sum.split)
  next
    assume "p = - 2 \<and> cmp = (\<lambda>a b. a < b)"
    then show ?thesis
      using assms(1,5) g
      by (cases "get as_int q ''trim'' 0 = 0")
         (simp_all add: load_pages_def new_from_source_loader_def load_options_def
            n_pages_of_def limit_one split: option.split sum.split)
  qed
qed

text \<open>
  C3. For a multi-page input and a requested page \<open>-1\<close> (resp. \<open>-2\<close>), when the scan can
  load every page, the pages are loaded with \<open>n = 1\<close> and \<open>page = t\<close>, where page \<open>t\<close> has
  the greatest (resp. least) \<open>height * width\<close> among the pages \<open>0, ..., P - 1\<close> and every
  page before \<open>t\<close> is strictly smaller (resp. larger): of the pages that tie, the lowest
  index wins. Page 0 is the image of the first load; page \<open>i\<close> is loaded once by the scan,
  for \<open>i = 1, ..., P - 1\<close> in this order.
\<close>

theorem load_pages_largest_smallest:
  fixes pg :: "int \<Rightarrow> VImage"
  assumes first: "call v loader blob (load_options q cfg None None) = Some (pg 0)"
    and P: "meta_n_pages (pg 0) = Some P" "1 < P"
    and scans: "\<forall>i. 1 \<le> i \<and> i < P \<longrightarrow> call v loader blob (scan_options cfg i) = Some (pg i)"
    and dims: "\<forall>i. 0 \<le> i \<and> i < P \<longrightarrow>
                 0 \<le> width (pg i) \<and> width (pg i) < 2 ^ 31 \<and>
                 0 \<le> height (pg i) \<and> height (pg i) < 2 ^ 31"
    and page: "q ''page'' = Some (VInt p)" "p = - 1 \<or> p = - 2"
  shows "\<exists>t. 0 \<le> t \<and> t < P
            \<and> (p = - 1 \<longrightarrow>
                 (\<forall>j. 0 \<le> j \<and> j < P \<longrightarrow>
                    height (pg j) * width (pg j) \<le> height (pg t) * width (pg t)) \<and>
                 (\<forall>j. 0 \<le> j \<and> j < t \<longrightarrow>
                    height (pg j) * width (pg j) < height (pg t) * width (pg t)))
            \<and> (p = - 2 \<longrightarrow>
                 (\<forall>j. 0 \<le> j \<and> j < P \<longrightarrow>
                    height (pg t) * width (pg t) \<le> height (pg j) * width (pg j)) \<and>
                 (\<forall>j. 0 \<le> j \<and> j < t \<longrightarrow>
                    height (pg t) * width (pg t) < height (pg j) * width (pg j)))
            \<and> load_pages v cfg q blob loader tr =
                (let tr' = tr @ [Call loader blob (load_options q cfg None None)]
                             @ scan_calls cfg blob loader 1 P
                             @ [Call loader blob (load_options q cfg (Some 1) (Some t))]
                 in case call v loader blob (load_options q cfg (Some 1) (Some t)) of
                      None \<Rightarrow> (Inl UnreadableImage, tr')
                    | Some img \<Rightarrow> (Inr (img, 1, t), tr'))"
proof -
  define A where "A j = pixels (height (pg j)) (width (pg j))" for j
  define cmp :: "int \<Rightarrow> int \<Rightarrow> bool"
    where "cmp = (if p = - 1 then (\<lambda>a b. a > b) else (\<lambda>a b. a < b))"
  define tr1 where "tr1 = tr @ [Call loader blob (load_options q cfg None None)]"
  have nP: "n_pages_of (pg 0) = P" using P(1) by (simp add: n_pages_of_def)
  have area: "A j = height (pg j) * width (pg j)" if "0 \<le> j" "j < P" for j
    using dims that by (simp add: A_def pixels_eq)
  have new: "first_best cmp A i t \<Longrightarrow> cmp (A i) (A t) \<Longrightarrow> 0 \<le> i \<Longrightarrow> first_best cmp A (i + 1) i"
    for i t
    using first_best_new_greater [of A i t] first_best_new_less [of A i t]
    by (simp add: cmp_def split: if_splits)
  have j0: "j = 0" if "0 \<le> j \<and> j < 1" for j :: int
    using that by arith
  have init: "first_best cmp A 1 0"
    using page(2) by (auto simp: first_best_def cmp_def dest!: j0)
  have "\<exists>t. resolve_page_loop v cfg blob loader cmp P 1 (A 0) 0 tr1
              = (Inr t, tr1 @ scan_calls cfg blob loader 1 P)
            \<and> t < P \<and> first_best cmp A P t"
  proof (rule resolve_page_loop_best [where pg = pg])
    show "\<forall>j. 1 \<le> j \<and> j < P \<longrightarrow> A j = pixels (height (pg j)) (width (pg j))"
      by (simp add: A_def)
  qed (use new scans P(2) init in simp_all)
  then obtain t where t:
    "resolve_page v cfg (pg 0) P blob loader cmp tr1 = (Inr t, tr1 @ scan_calls cfg blob loader 1 P)"
    "t < P" "first_best cmp A P t"
    by (auto simp: resolve_page_def A_def)
  have c: "p = - 1 \<and> cmp = (\<lambda>a b. a > b) \<or> p = - 2 \<and> cmp = (\<lambda>a b. a < b)"
    using page(2) by (auto simp: cmp_def)
  have t0: "0 \<le> t" using t(3) by (simp add: first_best_def)
  have lp: "load_pages v cfg q blob loader tr =
     (case call v loader blob (load_options q cfg (Some 1) (Some t)) of
        None \<Rightarrow> (Inl UnreadableImage,
                 (tr1 @ scan_calls cfg blob loader 1 P) @ [Call loader blob (load_options q cfg (Some 1) (Some t))])
      | Some img' \<Rightarrow> (Inr (img', 1, t),
                 (tr1 @ scan_calls cfg blob loader 1 P) @ [Call loader blob (load_options q cfg (Some 1) (Some t))]))"
    using load_pages_scan [OF first _ page(1) c, of tr "Inr t" "tr1 @ scan_calls cfg blob loader 1 P"]
      t(1) nP P(2) by (simp add: tr1_def)
  have big: "p = - 1 \<Longrightarrow> 0 \<le> j \<Longrightarrow> j < P \<Longrightarrow> A j \<le> A t" for j
    using t(3) by (auto simp: first_best_def cmp_def not_less)
  have big': "p = - 1 \<Longrightarrow> 0 \<le> j \<Longrightarrow> j < t \<Longrightarrow> A j < A t" for j
    using t(3) by (auto simp: first_best_def cmp_def)
  have small: "p = - 2 \<Longrightarrow> 0 \<le> j \<Longrightarrow> j < P \<Longrightarrow> A t \<le> A j" for j
    using t(3) by (auto simp: first_best_def cmp_def not_less)
  have small': "p = - 2 \<Longrightarrow> 0 \<le> j \<Longrightarrow> j < t \<Longrightarrow> A t < A j" for j
    using t(3) by (auto simp: first_best_def cmp_def)
  show ?thesis
  proof (intro exI [of _ t] conjI impI allI)
    show "0 \<le> t" by fact
    show "t < P" by fact
    show "load_pages v cfg q blob loader tr =
                (let tr' = tr @ [Call loader blob (load_options q cfg None None)]
                             @ scan_calls cfg blob loader 1 P
                             @ [Call loader blob (load_options q cfg (Some 1) (Some t))]
                 in case call v loader blob (load_options q cfg (Some 1) (Some t)) of
                      None \<Rightarrow> (Inl UnreadableImage, tr')
                    | Some img \<Rightarrow> (Inr (img, 1, t), tr'))"
      using lp by (simp add: tr1_def Let_def split: option.split)
  next
    fix j assume "p = - 1" "0 \<le> j \<and> j < P"
    then show "height (pg j) * width (pg j) \<le> height (pg t) * width (pg t)"
      using big [of j] area [of j] area [of t] t0 t(2) by simp
  next
    fix j assume "p = - 1" "0 \<le> j \<and> j < t"
    then show "height (pg j) * width (pg j) < height (pg t) * width (pg t)"
      using big' [of j] area [of j] area [of t] t0 t(2) by simp
  next
    fix j assume "p = - 2" "0 \<le> j \<and> j < P"
    then show "height (pg t) * width (pg t) \<le> height (pg j) * width (pg j)"
      using small [of j] area [of j] area [of t] t0 t(2) by simp
  next
    fix j assume "p = - 2" "0 \<le> j \<and> j < t"
    then show "height (pg t) * width (pg t) < height (pg j) * width (pg j)"
      using small' [of j] area [of j] area [of t] t0 t(2) by simp
  qed
qed

text \<open>
  The theorem at the example source, which satisfies its hypotheses: pages 1 and 2 tie
  for the largest and page 1 is selected; page 0 is the smallest.
\<close>

theorem load_pages_largest_smallest_witness:
  "fst (load_pages ex_vips ex_cfg [''page'' \<mapsto> VInt (- 1)] False ''gifload_source'' [])
     = Inr (ex_page 1, 1, 1)
   \<and> fst (load_pages ex_vips ex_cfg [''page'' \<mapsto> VInt (- 2)] False ''gifload_source'' [])
     = Inr (ex_page 0, 1, 0)"
proof -
  have first: "call ex_vips ''gifload_source'' False (load_options q ex_cfg None None)
                 = Some (ex_page 0)" for q
    by (simp add: ex_vips_def load_options_def)
  have P: "meta_n_pages (ex_page 0) = Some 3" "1 < (3::int)"
    by (simp_all add: ex_page_def)
  have scans: "\<forall>i. 1 \<le> i \<and> i < 3 \<longrightarrow>
                 call ex_vips ''gifload_source'' False (scan_options ex_cfg i) = Some (ex_page i)"
    by (simp add: ex_vips_def scan_options_def)
  have dims: "\<forall>i. 0 \<le> i \<and> i < 3 \<longrightarrow>
                 0 \<le> width (ex_page i) \<and> width (ex_page i) < 2 ^ 31 \<and>
                 0 \<le> height (ex_page i) \<and> height (ex_page i) < 2 ^ 31"
    by (simp add: ex_page_def)
  have largest: "fst (load_pages ex_vips ex_cfg [''page'' \<mapsto> VInt (- 1)] False
                        ''gifload_source'' []) = Inr (ex_page 1, 1, 1)"
  proof -
    let ?q = "[''page'' \<mapsto> VInt (- 1)]"
    have page: "?q ''page'' = Some (VInt (- 1))" "- 1 = - 1 \<or> - 1 = (- 2 :: int)"
      by simp_all
    from load_pages_largest_smallest [OF first [of ?q] P scans dims page, where tr = "[]"]
    obtain t where t: "0 \<le> t" "t < 3"
      and big: "(- 1 :: int) = - 1 \<longrightarrow>
        (\<forall>j. 0 \<le> j \<and> j < 3 \<longrightarrow>
           height (ex_page j) * width (ex_page j) \<le> height (ex_page t) * width (ex_page t)) \<and>
        (\<forall>j. 0 \<le> j \<and> j < t \<longrightarrow>
           height (ex_page j) * width (ex_page j) < height (ex_page t) * width (ex_page t))"
      and lp: "load_pages ex_vips ex_cfg ?q False ''gifload_source'' [] =
         (let tr' = [] @ [Call ''gifload_source'' False (load_options ?q ex_cfg None None)]
                       @ scan_calls ex_cfg False ''gifload_source'' 1 3
                       @ [Call ''gifload_source'' False
                            (load_options ?q ex_cfg (Some 1) (Some t))]
          in case call ex_vips ''gifload_source'' False
                    (load_options ?q ex_cfg (Some 1) (Some t)) of
               None \<Rightarrow> (Inl UnreadableImage, tr')
             | Some img \<Rightarrow> (Inr (img, 1, t), tr'))"
      by blast
    have le: "height (ex_page 1) * width (ex_page 1)
                \<le> height (ex_page t) * width (ex_page t)"
      using big by simp
    have lt: "1 < t \<Longrightarrow> height (ex_page 1) * width (ex_page 1)
                < height (ex_page t) * width (ex_page t)"
      using big by simp
    have "t \<noteq> 0" using le by (auto simp: ex_page_def)
    moreover have "\<not> 1 < t" using lt by (auto simp: ex_page_def)
    ultimately have "t = 1" using t by arith
    then show ?thesis
      using lp by (simp add: ex_vips_def load_options_def Let_def)
  qed
  have smallest: "fst (load_pages ex_vips ex_cfg [''page'' \<mapsto> VInt (- 2)] False
                         ''gifload_source'' []) = Inr (ex_page 0, 1, 0)"
  proof -
    let ?q = "[''page'' \<mapsto> VInt (- 2)]"
    have page: "?q ''page'' = Some (VInt (- 2))" "- 2 = - 1 \<or> - 2 = (- 2 :: int)"
      by simp_all
    from load_pages_largest_smallest [OF first [of ?q] P scans dims page, where tr = "[]"]
    obtain t where t: "0 \<le> t" "t < 3"
      and small: "(- 2 :: int) = - 2 \<longrightarrow>
        (\<forall>j. 0 \<le> j \<and> j < 3 \<longrightarrow>
           height (ex_page t) * width (ex_page t) \<le> height (ex_page j) * width (ex_page j)) \<and>
        (\<forall>j. 0 \<le> j \<and> j < t \<longrightarrow>
           height (ex_page t) * width (ex_page t) < height (ex_page j) * width (ex_page j))"
      and lp: "load_pages ex_vips ex_cfg ?q False ''gifload_source'' [] =
         (let tr' = [] @ [Call ''gifload_source'' False (load_options ?q ex_cfg None None)]
                       @ scan_calls ex_cfg False ''gifload_source'' 1 3
                       @ [Call ''gifload_source'' False
                            (load_options ?q ex_cfg (Some 1) (Some t))]
          in case call ex_vips ''gifload_source'' False
                    (load_options ?q ex_cfg (Some 1) (Some t)) of
               None \<Rightarrow> (Inl UnreadableImage, tr')
             | Some img \<Rightarrow> (Inr (img, 1, t), tr'))"
      by blast
    have le: "height (ex_page t) * width (ex_page t)
                \<le> height (ex_page 0) * width (ex_page 0)"
      using small by simp
    have "t = 0" using le by (auto simp: ex_page_def split: if_splits)
    then show ?thesis
      using lp by (simp add: ex_vips_def load_options_def Let_def)
  qed
  show ?thesis using largest smallest by simp
qed

text \<open>
  C1, as the code has it. With a positive maximum page count, the limit is checked on the
  resolved \<open>n\<close> right after the first load: when \<open>n\<close> exceeds the maximum the pipeline
  fails with \<^verbatim>\<open>TooLargeImage\<close> and has made no other load. A request with page \<open>-1\<close> or
  \<open>-2\<close> resolves to \<open>n = 1\<close>, so it never fails this check, whatever the page count
  \<open>P > 1\<close> is, and the scan then loads page 1 (and the pages after it).
\<close>

theorem load_pages_page_limit:
  assumes first: "call v loader blob (load_options q cfg None None) = Some img0"
    and limit: "0 < max_pages cfg"
  shows "(get_page_load_options q (n_pages_of img0) = (n, p) \<and> max_pages cfg < n \<longrightarrow>
            load_pages v cfg q blob loader tr =
              (Inl (TooLargeImage (pages_message cfg)),
               tr @ [Call loader blob (load_options q cfg None None)]))
       \<and> (1 < n_pages_of img0 \<and> q ''page'' = Some (VInt p) \<and> (p = - 1 \<or> p = - 2) \<longrightarrow>
            get_page_load_options q (n_pages_of img0) = (1, p) \<and>
            (\<forall>msg. fst (load_pages v cfg q blob loader tr) \<noteq> Inl (TooLargeImage msg)) \<and>
            (\<exists>rest. snd (load_pages v cfg q blob loader tr) =
                      tr @ [Call loader blob (load_options q cfg None None),
                            Call loader blob (scan_options cfg 1)] @ rest))"
proof (intro conjI impI)
  assume "get_page_load_options q (n_pages_of img0) = (n, p) \<and> max_pages cfg < n"
  then show "load_pages v cfg q blob loader tr =
              (Inl (TooLargeImage (pages_message cfg)),
               tr @ [Call loader blob (load_options q cfg None None)])"
    using load_pages_too_many [OF first _ limit] by simp
next
  assume a: "1 < n_pages_of img0 \<and> q ''page'' = Some (VInt p) \<and> (p = - 1 \<or> p = - 2)"
  then have P1: "n_pages_of img0 \<noteq> 1" by simp
  show "get_page_load_options q (n_pages_of img0) = (1, p)"
    using a P1 by (simp add: get_page_load_options_scan)
  define cmp :: "int \<Rightarrow> int \<Rightarrow> bool"
    where "cmp = (if p = - 1 then (\<lambda>a b. a > b) else (\<lambda>a b. a < b))"
  define tr1 where "tr1 = tr @ [Call loader blob (load_options q cfg None None)]"
  have c: "p = - 1 \<and> cmp = (\<lambda>a b. a > b) \<or> p = - 2 \<and> cmp = (\<lambda>a b. a < b)"
    using a by (auto simp: cmp_def)
  obtain r rest where r:
    "resolve_page v cfg img0 (n_pages_of img0) blob loader cmp tr1
       = (r, tr1 @ Call loader blob (scan_options cfg 1) # rest)"
    "r = Inl UnreadableImage \<or> (\<exists>t. r = Inr t)"
    using resolve_page_loop_outcome
            [of v cfg blob loader cmp "n_pages_of img0" 1
                "pixels (height img0) (width img0)" 0 tr1] a
    by (auto simp: resolve_page_def)
  have lp: "load_pages v cfg q blob loader tr =
     (case r of
        Inl e \<Rightarrow> (Inl e, tr1 @ Call loader blob (scan_options cfg 1) # rest)
      | Inr t \<Rightarrow>
          (case call v loader blob (load_options q cfg (Some 1) (Some t)) of
             None \<Rightarrow> (Inl UnreadableImage,
                      (tr1 @ Call loader blob (scan_options cfg 1) # rest) @
                      [Call loader blob (load_options q cfg (Some 1) (Some t))])
           | Some img' \<Rightarrow> (Inr (img', 1, t),
                      (tr1 @ Call loader blob (scan_options cfg 1) # rest) @
                      [Call loader blob (load_options q cfg (Some 1) (Some t))])))"
  proof -
    have qp: "q ''page'' = Some (VInt p)" using a by simp
    show ?thesis
      using load_pages_scan [OF first P1 qp c r(1) [unfolded tr1_def]]
      by (simp add: tr1_def split: sum.split option.split)
  qed
  show "\<forall>msg. fst (load_pages v cfg q blob loader tr) \<noteq> Inl (TooLargeImage msg)"
    using r(2) by (auto simp: lp split: option.splits)
  show "\<exists>rest. snd (load_pages v cfg q blob loader tr) =
                      tr @ [Call loader blob (load_options q cfg None None),
                            Call loader blob (scan_options cfg 1)] @ rest"
    using r(2) by (auto simp: lp tr1_def split: option.splits)
qed

theorem load_pages_page_limit_witness:
  "load_pages ex_vips ex_cfg [''n'' \<mapsto> VInt 3] False ''gifload_source'' [] =
     (Inl (TooLargeImage
            ''Input image exceeds the maximum number of pages. Number of pages should be less than 2''),
      [Call ''gifload_source'' False (load_options [''n'' \<mapsto> VInt 3] ex_cfg None None)])
   \<and> get_page_load_options [''page'' \<mapsto> VInt (- 1)] 3 = (1, - 1)
   \<and> (\<exists>rest. snd (load_pages ex_vips ex_cfg [''page'' \<mapsto> VInt (- 1)] False ''gifload_source'' []) =
               [Call ''gifload_source'' False (load_options [''page'' \<mapsto> VInt (- 1)] ex_cfg None None),
                Call ''gifload_source'' False (scan_options ex_cfg 1)] @ rest)"
proof -
  have first: "call ex_vips ''gifload_source'' False (load_options q ex_cfg None None)
                 = Some (ex_page 0)" for q
    by (simp add: ex_vips_def load_options_def)
  have limit: "0 < max_pages ex_cfg" by (simp add: ex_cfg_def)
  have P: "n_pages_of (ex_page 0) = 3" by (simp add: n_pages_of_def ex_page_def)
  have g: "get_page_load_options [''n'' \<mapsto> VInt 3] 3 = (3, 0)"
    by (simp add: get_page_load_options_def get_if_def)
  have m: "pages_message ex_cfg =
    ''Input image exceeds the maximum number of pages. Number of pages should be less than 2''"
    by (simp add: pages_message_def ex_cfg_def to_string_def)
  show ?thesis
    using load_pages_page_limit [OF first [of "[''n'' \<mapsto> VInt 3]"] limit,
            where n = 3 and p = 0 and tr = "[]"]
          load_pages_page_limit [OF first [of "[''page'' \<mapsto> VInt (- 1)]"] limit,
            where n = 1 and p = "- 1" and tr = "[]"]
          P g m
    by (simp add: ex_cfg_def)
qed

text \<open>
  C1 as the claim states it fails: the example source has three pages, the maximum is two,
  and the request for page \<open>-1\<close> succeeds after four loads (the first, the scan of pages 1
  and 2, and the load of the page selected).
\<close>

theorem page_limit_counterexample:
  "meta_n_pages (ex_page 0) = Some 3 \<and> max_pages ex_cfg = 2
   \<and> fst (new_from_source ex_vips ex_utils ex_cfg
            \<lparr>query = [''page'' \<mapsto> VInt (- 1)], trace = []\<rparr>)
     = Inr (ex_page 1)
   \<and> trace (snd (new_from_source ex_vips ex_utils ex_cfg
                   \<lparr>query = [''page'' \<mapsto> VInt (- 1)], trace = []\<rparr>))
     = [Call ''gifload_source'' False (load_options Map.empty ex_cfg None None),
        Call ''gifload_source'' False (scan_options ex_cfg 1),
        Call ''gifload_source'' False (scan_options ex_cfg 2),
        Call ''gifload_source'' False (load_options Map.empty ex_cfg (Some 1) (Some 1))]"
  by (simp add: new_from_source_def find_loader_def load_pages_def resolve_page_def
        resolve_page_loop.simps new_from_source_loader_def get_page_load_options_def
        get_def get_if_def update_def
        ex_vips_def ex_page_def ex_cfg_def ex_utils_def scan_options_def load_options_def
        pixels_def uint64_def Let_def)

subsection \<open>The two limits\<close>

text \<open>
  C7. Once the pages are loaded, if the maximum number of pixels is positive and
  \<open>width * height\<close> of the image loaded exceeds it, \<^verbatim>\<open>new_from_source\<close> fails with
  \<^verbatim>\<open>TooLargeImage\<close> and the message of the pixel limit. The limit on the number of pages is
  checked before the pages are loaded: when the resolved \<open>n\<close> exceeds a positive maximum,
  \<^verbatim>\<open>new_from_source\<close> fails with the message of the page limit after the first load,
  whatever the pixel limit is. The two messages differ.
\<close>

theorem new_from_source_limits:
  assumes loader: "find_loader v = Inr (blob, loader)"
    and q': "q' = update (query st) ''type'' (VInt (determine_image_type u loader))"
  shows "(load_pages v cfg q' blob loader (trace st) = (Inr (img, n, p), tr) \<and>
          0 < limit_input_pixels cfg \<and>
          0 \<le> width img \<and> width img < 2 ^ 31 \<and> 0 \<le> height img \<and> height img < 2 ^ 31 \<and>
          limit_input_pixels cfg < width img * height img
          \<longrightarrow> new_from_source v u cfg st =
                (Inl (TooLargeImage (pixels_message cfg)), \<lparr>query = q', trace = tr\<rparr>))
       \<and> (call v loader blob (load_options q' cfg None None) = Some img0 \<and>
          get_page_load_options q' (n_pages_of img0) = (n', p') \<and>
          0 < max_pages cfg \<and> max_pages cfg < n'
          \<longrightarrow> new_from_source v u cfg st =
                (Inl (TooLargeImage (pages_message cfg)),
                 \<lparr>query = q',
                  trace = trace st @ [Call loader blob (load_options q' cfg None None)]\<rparr>))
       \<and> pages_message cfg \<noteq> pixels_message cfg"
proof (intro conjI impI)
  assume a: "load_pages v cfg q' blob loader (trace st) = (Inr (img, n, p), tr) \<and>
          0 < limit_input_pixels cfg \<and>
          0 \<le> width img \<and> width img < 2 ^ 31 \<and> 0 \<le> height img \<and> height img < 2 ^ 31 \<and>
          limit_input_pixels cfg < width img * height img"
  then have "pixels (width img) (height img) = width img * height img"
    by (simp add: pixels_eq)
  then show "new_from_source v u cfg st =
                (Inl (TooLargeImage (pixels_message cfg)), \<lparr>query = q', trace = tr\<rparr>)"
    using a loader q' by (simp add: new_from_source_def pixels_message_def Let_def)
next
  assume a: "call v loader blob (load_options q' cfg None None) = Some img0 \<and>
          get_page_load_options q' (n_pages_of img0) = (n', p') \<and>
          0 < max_pages cfg \<and> max_pages cfg < n'"
  then have "load_pages v cfg q' blob loader (trace st) =
           (Inl (TooLargeImage (pages_message cfg)),
            trace st @ [Call loader blob (load_options q' cfg None None)])"
    by (simp add: load_pages_too_many)
  then show "new_from_source v u cfg st =
                (Inl (TooLargeImage (pages_message cfg)),
                 \<lparr>query = q',
                  trace = trace st @ [Call loader blob (load_options q' cfg None None)]\<rparr>)"
    using loader q' by (simp add: new_from_source_def Let_def)
next
  show "pages_message cfg \<noteq> pixels_message cfg"
    by (simp add: pages_message_def pixels_message_def)
qed

text \<open>
  The theorem at the example source with a pixel limit of 10: the first page alone has
  16 pixels, and a request for three pages exceeds the page limit as well, which is the
  error reported.
\<close>

theorem new_from_source_limits_witness:
  "new_from_source ex_vips ex_utils (ex_cfg\<lparr>limit_input_pixels := 10\<rparr>)
     \<lparr>query = Map.empty, trace = []\<rparr> =
     (Inl (TooLargeImage
            ''Input image exceeds pixel limit. Width x height should be less than 10''),
      \<lparr>query = [''type'' \<mapsto> VInt 1],
       trace = [Call ''gifload_source'' False
                  (load_options Map.empty ex_cfg None None)]\<rparr>)
   \<and> new_from_source ex_vips ex_utils (ex_cfg\<lparr>limit_input_pixels := 10\<rparr>)
     \<lparr>query = [''n'' \<mapsto> VInt 3], trace = []\<rparr> =
     (Inl (TooLargeImage
            ''Input image exceeds the maximum number of pages. Number of pages should be less than 2''),
      \<lparr>query = [''n'' \<mapsto> VInt 3, ''type'' \<mapsto> VInt 1],
       trace = [Call ''gifload_source'' False
                  (load_options Map.empty ex_cfg None None)]\<rparr>)"
proof -
  let ?cfg = "ex_cfg\<lparr>limit_input_pixels := 10\<rparr>"
  let ?c = "Call ''gifload_source'' False (load_options Map.empty ex_cfg None None)"
  have loader: "find_loader ex_vips = Inr (False, ''gifload_source'')"
    by (simp add: find_loader_def ex_vips_def)
  have o: "load_options q ?cfg None None = load_options Map.empty ex_cfg None None"
    if "q ''trim'' = None" for q
    using that by (simp add: load_options_def get_def)
  have first: "call ex_vips ''gifload_source'' False (load_options q ?cfg None None)
                 = Some (ex_page 0)" for q
    by (simp add: ex_vips_def load_options_def)
  have m1: "pixels_message ?cfg =
    ''Input image exceeds pixel limit. Width x height should be less than 10''"
    by (simp add: pixels_message_def to_string_def)
  have m2: "pages_message ?cfg =
    ''Input image exceeds the maximum number of pages. Number of pages should be less than 2''"
    by (simp add: pages_message_def ex_cfg_def to_string_def)
  have e1: "[''type'' \<mapsto> VInt 1] =
      update (query \<lparr>query = Map.empty, trace = []\<rparr>) ''type''
        (VInt (determine_image_type ex_utils ''gifload_source''))"
    by (simp add: update_def ex_utils_def)
  have lp: "load_pages ex_vips ?cfg [''type'' \<mapsto> VInt 1] False ''gifload_source''
              [] = (Inr (ex_page 0, 1, 0), [?c])"
    by (simp add: load_pages_def new_from_source_loader_def get_page_load_options_def
          get_def get_if_def ex_vips_def ex_page_def ex_cfg_def load_options_def)
  have r1: "new_from_source ex_vips ex_utils ?cfg \<lparr>query = Map.empty, trace = []\<rparr> =
              (Inl (TooLargeImage (pixels_message ?cfg)),
               \<lparr>query = [''type'' \<mapsto> VInt 1], trace = [?c]\<rparr>)"
    by (rule new_from_source_limits
              [OF loader e1, where img = "ex_page 0" and n = 1 and p = 0,
               THEN conjunct1, rule_format])
       (use lp in \<open>simp add: ex_page_def\<close>)
  have mp: "max_pages ?cfg = 2" by (simp add: ex_cfg_def)
  have e2: "[''n'' \<mapsto> VInt 3, ''type'' \<mapsto> VInt 1] =
      update (query \<lparr>query = [''n'' \<mapsto> VInt 3], trace = []\<rparr>) ''type''
        (VInt (determine_image_type ex_utils ''gifload_source''))"
    by (simp add: update_def ex_utils_def)
  have g: "get_page_load_options [''n'' \<mapsto> VInt 3, ''type'' \<mapsto> VInt 1] (n_pages_of (ex_page 0))
             = (3, 0)"
    by (simp add: get_page_load_options_def get_if_def n_pages_of_def ex_page_def)
  have r2: "new_from_source ex_vips ex_utils ?cfg \<lparr>query = [''n'' \<mapsto> VInt 3], trace = []\<rparr> =
              (Inl (TooLargeImage (pages_message ?cfg)),
               \<lparr>query = [''n'' \<mapsto> VInt 3, ''type'' \<mapsto> VInt 1],
                trace = trace \<lparr>query = [''n'' \<mapsto> VInt 3], trace = []\<rparr> @
                  [Call ''gifload_source'' False
                     (load_options [''n'' \<mapsto> VInt 3, ''type'' \<mapsto> VInt 1] ?cfg None None)]\<rparr>)"
    by (rule new_from_source_limits
              [OF loader e2, where ?img0.0 = "ex_page 0" and n' = 3 and p' = 0,
               THEN conjunct2, THEN conjunct1, rule_format])
       (simp add: first g mp)
  show ?thesis
    using r1 r2 by (simp add: m1 m2 o)
qed

subsection \<open>Single precision\<close>

text \<open>
  The exponent of a positive number is the one of the power of two at or below it.
\<close>

lemma bitlen_bounds: "0 < n \<Longrightarrow> 2 ^ (bitlen n - 1) \<le> n \<and> n < 2 ^ bitlen n"
proof (induction n rule: bitlen.induct)
  case (1 n)
  show ?case
  proof (cases "n div 2 = 0")
    case True
    then have "n = 1" using 1(2) by arith
    then show ?thesis by (simp add: bitlen.simps)
  next
    case False
    then have pos: "0 < n div 2" by simp
    have ih: "2 ^ (bitlen (n div 2) - 1) \<le> n div 2 \<and> n div 2 < 2 ^ bitlen (n div 2)"
      using 1(1) pos 1(2) by simp
    have b: "bitlen n = Suc (bitlen (n div 2))"
      using 1(2) by (subst bitlen.simps) simp
    have bp: "0 < bitlen (n div 2)"
      using pos by (subst bitlen.simps) simp
    then obtain k where k: "bitlen (n div 2) = Suc k"
      by (cases "bitlen (n div 2)") auto
    show ?thesis
      using ih by (simp add: b k) arith
  qed
qed

lemma pow2_pos: "0 < pow2 k"
  by (simp add: pow2_def)

lemma pow2_add: "pow2 (a + b) = pow2 a * pow2 b"
proof -
  have "pow2 k = 2 powi k" for k
    by (simp add: pow2_def power_int_def power_one_over)
  then show ?thesis
    by (simp add: power_int_add)
qed

lemma pow2_neg: "pow2 (- int k) = 1 / 2 ^ k"
  by (cases k) (simp_all add: pow2_def nat_add_distrib)

lemma nat_pow2_bounds:
  assumes "2 ^ k \<le> n" "n < 2 ^ Suc k"
  shows "(2::rat) ^ k \<le> of_nat n" "of_nat n + 1 \<le> (2::rat) ^ Suc k"
proof -
  have "(of_nat (2 ^ k) :: rat) \<le> of_nat n"
    using assms(1) by (rule iffD2 [OF of_nat_le_iff])
  then show "(2::rat) ^ k \<le> of_nat n"
    by simp
  have "Suc n \<le> 2 ^ Suc k"
    using assms(2) by simp
  then have "(of_nat (Suc n) :: rat) \<le> of_nat (2 ^ Suc k)"
    by (rule iffD2 [OF of_nat_le_iff])
  then show "of_nat n + 1 \<le> (2::rat) ^ Suc k"
    by simp
qed

lemma ilog2_bounds:
  assumes "0 < x"
  shows "pow2 (ilog2 x) \<le> x \<and> x < pow2 (ilog2 x + 1)"
proof (cases "1 \<le> x")
  case True
  define n where "n = nat \<lfloor>x\<rfloor>"
  have n: "0 < n" "of_nat n \<le> x" "x < of_nat n + 1"
    using True unfolding n_def by (simp_all add: of_nat_nat) linarith+
  obtain k where k: "bitlen n = Suc k"
    using bitlen_bounds [OF n(1)] n(1) by (cases "bitlen n") auto
  have b: "2 ^ k \<le> n" "n < 2 ^ Suc k"
    using bitlen_bounds [OF n(1)] by (simp_all add: k)
  have b1: "(2::rat) ^ k \<le> of_nat n" and b2: "of_nat n + 1 \<le> (2::rat) ^ Suc k"
    using nat_pow2_bounds [OF b] by simp_all
  have i: "ilog2 x = int k"
    using True by (simp add: ilog2_def n_def [symmetric] k)
  have "2 ^ k \<le> x" "x < 2 ^ Suc k"
    using b1 b2 n by linarith+
  then show ?thesis
    by (simp add: i pow2_def nat_add_distrib)
next
  case False
  define n where "n = nat (\<lceil>1 / x\<rceil> - 1)"
  have x1: "1 < 1 / x"
    using False assms by simp
  then have c: "2 \<le> \<lceil>1 / x\<rceil>"
    by linarith
  have n: "0 < n" "of_nat n < 1 / x" "1 / x \<le> of_nat n + 1"
    using c unfolding n_def by (simp_all add: of_nat_nat) linarith+
  obtain k where k: "bitlen n = Suc k"
    using bitlen_bounds [OF n(1)] n(1) by (cases "bitlen n") auto
  have b: "2 ^ k \<le> n" "n < 2 ^ Suc k"
    using bitlen_bounds [OF n(1)] by (simp_all add: k)
  have b1: "(2::rat) ^ k \<le> of_nat n" and b2: "of_nat n + 1 \<le> (2::rat) ^ Suc k"
    using nat_pow2_bounds [OF b] by simp_all
  have i: "ilog2 x = - int (Suc k)"
    using False by (simp add: ilog2_def n_def [symmetric] k)
  have lo: "1 / 2 ^ Suc k \<le> x"
  proof -
    have "1 / x \<le> 2 ^ Suc k" using n(3) b2 by linarith
    then show ?thesis using assms by (simp add: field_simps)
  qed
  have hi: "x < 1 / 2 ^ k"
  proof -
    have "2 ^ k < 1 / x" using n(2) b1 by linarith
    then show ?thesis using assms by (simp add: field_simps)
  qed
  have "pow2 (ilog2 x) = 1 / 2 ^ Suc k"
    unfolding i by (rule pow2_neg)
  moreover have "pow2 (ilog2 x + 1) = 1 / 2 ^ k"
  proof -
    have "ilog2 x + 1 = - int k" using i by simp
    then show ?thesis by (simp only: pow2_neg)
  qed
  ultimately show ?thesis
    using lo hi by simp
qed


text \<open>
  \<open>round_half_even\<close> is within a half of its argument and leaves an integer as it is, so
  \<open>nearest32\<close> is within half a unit in the last place of its argument.
\<close>

lemma round_half_even_nearest: "\<bar>of_int (round_half_even x) - x\<bar> \<le> 1 / 2"
proof -
  define f where "f = \<lfloor>x\<rfloor>"
  have b: "of_int f \<le> x" "x < of_int f + 1"
    unfolding f_def by linarith+
  have "round_half_even x
          = (if x - of_int f < 1 / 2 then f else if 1 / 2 < x - of_int f then f + 1
             else if even f then f else f + 1)"
    by (simp add: round_half_even_def Let_def f_def)
  then show ?thesis
    using b by (simp split: if_splits)
qed

lemma round_half_even_of_int: "round_half_even (of_int k) = k"
  by (simp add: round_half_even_def)

lemma nearest32_error:
  assumes "x \<noteq> 0"
  shows "\<bar>nearest32 x - x\<bar> \<le> pow2 (max (ilog2 \<bar>x\<bar>) (- 126) - 23) / 2"
proof -
  define ulp where "ulp = pow2 (max (ilog2 \<bar>x\<bar>) (- 126) - 23)"
  have pos: "0 < ulp"
    unfolding ulp_def by (rule pow2_pos)
  have n: "nearest32 x = of_int (round_half_even (x / ulp)) * ulp"
    using assms by (simp add: nearest32_def Let_def ulp_def)
  have "\<bar>of_int (round_half_even (x / ulp)) - x / ulp\<bar> * ulp \<le> 1 / 2 * ulp"
    using round_half_even_nearest [of "x / ulp"] pos by (simp only: mult_le_cancel_right_pos)
  moreover have "\<bar>of_int (round_half_even (x / ulp)) - x / ulp\<bar> * ulp
                  = \<bar>of_int (round_half_even (x / ulp)) * ulp - x\<bar>"
  proof -
    have "\<bar>of_int (round_half_even (x / ulp)) - x / ulp\<bar> * ulp
            = \<bar>(of_int (round_half_even (x / ulp)) - x / ulp) * ulp\<bar>"
      using pos by (simp add: abs_mult)
    also have "(of_int (round_half_even (x / ulp)) - x / ulp) * ulp
                 = of_int (round_half_even (x / ulp)) * ulp - x"
      using pos by (simp add: field_simps)
    finally show ?thesis .
  qed
  ultimately show ?thesis
    by (simp add: n ulp_def)
qed

text \<open>
  The conversion of an \<^verbatim>\<open>int\<close> to \<^verbatim>\<open>float\<close> is exact up to \<open>2^24\<close> in magnitude.
\<close>

lemma pow2_less_iff: "pow2 a < pow2 b \<longleftrightarrow> a < b"
proof -
  have p: "pow2 k = 2 powi k" for k
    by (simp add: pow2_def power_int_def power_one_over)
  have mono: "pow2 m < pow2 n" if "m < n" for m n
    unfolding p using that by (rule power_int_strict_increasing) simp
  show ?thesis
  proof
    assume l: "pow2 a < pow2 b"
    show "a < b"
    proof (rule ccontr)
      assume "\<not> a < b"
      then consider "b < a" | "b = a" by linarith
      then show False
        using l mono [of b a] by cases simp_all
    qed
  qed (rule mono)
qed

lemma nearest32_int_exact:
  assumes "\<bar>d\<bar> \<le> 2 ^ 24"
  shows "nearest32 (of_int d) = of_int d"
proof (cases "d = 0")
  case True
  then show ?thesis by (simp add: nearest32_def)
next
  case False
  define e where "e = ilog2 \<bar>of_int d\<bar>"
  have a: "1 \<le> \<bar>of_int d :: rat\<bar>" "\<bar>of_int d :: rat\<bar> \<le> 2 ^ 24"
  proof -
    have "1 \<le> \<bar>d\<bar>" using False by simp
    then have "of_int 1 \<le> (of_int \<bar>d\<bar> :: rat)" by (simp only: of_int_le_iff)
    then show "1 \<le> \<bar>of_int d :: rat\<bar>" by simp
    have "(of_int \<bar>d\<bar> :: rat) \<le> of_int (2 ^ 24)" using assms by (simp only: of_int_le_iff)
    then show "\<bar>of_int d :: rat\<bar> \<le> 2 ^ 24" by simp
  qed
  have b: "pow2 e \<le> \<bar>of_int d\<bar>" "\<bar>of_int d\<bar> < pow2 (e + 1)"
    using ilog2_bounds [of "\<bar>of_int d\<bar>"] a(1) by (simp_all add: e_def)
  have "pow2 0 < pow2 (e + 1)"
    using a(1) b(2) by (simp add: pow2_def)
  then have e0: "0 \<le> e"
    by (simp add: pow2_less_iff)
  have "pow2 e < pow2 25"
  proof -
    have "pow2 e \<le> 2 ^ 24" using a(2) b(1) by linarith
    then show ?thesis by (simp add: pow2_def)
  qed
  then have e24: "e \<le> 24"
    by (simp add: pow2_less_iff)
  have m: "max e (- 126) = e"
    using e0 by simp
  have n: "nearest32 (of_int d)
             = of_int (round_half_even (of_int d / pow2 (e - 23))) * pow2 (e - 23)"
    using False by (simp add: nearest32_def Let_def e_def [symmetric] m)
  show ?thesis
  proof (cases "e = 24")
    case True
    have "\<bar>of_int d :: rat\<bar> = 2 ^ 24"
      using a(2) b(1) True by (simp add: pow2_def)
    then have "\<bar>d\<bar> = 2 ^ 24"
      by (metis of_int_abs of_int_eq_iff of_int_numeral of_int_power)
    then have d: "d = 16777216 \<or> d = - 16777216"
      by simp arith
    have h1: "of_int d / pow2 (e - 23) = (of_int (d div 2) :: rat)"
      using d by (auto simp: True pow2_def)
    have h2: "(of_int (d div 2) :: rat) * pow2 (e - 23) = of_int d"
      using d by (auto simp: True pow2_def)
    show ?thesis
      unfolding n h1 round_half_even_of_int h2 ..
  next
    case False
    then have le: "e \<le> 23" using e24 by simp
    define k where "k = nat (23 - e)"
    have p: "pow2 (e - 23) = 1 / 2 ^ k"
    proof -
      have "e - 23 = - int k" using le by (simp add: k_def)
      then show ?thesis by (simp only: pow2_neg)
    qed
    have h1: "of_int d / pow2 (e - 23) = (of_int (d * 2 ^ k) :: rat)"
      by (simp add: p)
    have h2: "(of_int (d * 2 ^ k) :: rat) * pow2 (e - 23) = of_int d"
      by (simp add: p)
    show ?thesis
      unfolding n h1 round_half_even_of_int h2 ..
  qed
qed

text \<open>
  Floor and ceiling of a quotient of numerals, with which the single-precision steps are
  evaluated at a concrete input.
\<close>

lemma floor_rat_numeral:
  "\<lfloor>numeral a / numeral b :: rat\<rfloor> = numeral a div numeral b"
  "\<lfloor>- (numeral a / numeral b) :: rat\<rfloor> = - numeral a div numeral b"
  "\<lfloor>1 / numeral b :: rat\<rfloor> = 1 div numeral b"
    apply (metis floor_divide_of_int_eq of_int_numeral)
   apply (metis divide_minus_left floor_divide_of_int_eq of_int_neg_numeral of_int_numeral)
  apply (metis floor_divide_of_int_eq of_int_1 of_int_numeral)
  done

lemma ceiling_rat_numeral:
  "\<lceil>numeral a / numeral b :: rat\<rceil> = - (- numeral a div numeral b)"
  "\<lceil>1 / numeral b :: rat\<rceil> = - (- 1 div numeral b)"
  unfolding ceiling_def
   apply (metis floor_rat_numeral(2))
  apply (metis divide_minus_left floor_divide_of_int_eq of_int_minus of_int_1 of_int_numeral)
  done

lemmas float_eval = nearest32_def ilog2_def bitlen.simps round_half_even_def pow2_def Let_def
  std_round_def int_of_float_def floor_rat_numeral ceiling_rat_numeral

lemma valof_minus_one_F: "valof minus_one_F = Finite (- 1)"
  by (simp add: minus_one_F_def valof_def pow2_def Let_def)

subsection \<open>Orientation\<close>

text \<open>The normalisation of the angle is the remainder of the division that rounds down.\<close>

lemma normalize_angle:
  "(if rem x 360 < 0 then 360 + rem x 360 else rem x 360) = x mod 360"
proof (cases "0 \<le> x")
  case True
  moreover have "\<not> x mod 360 < 0" by (simp add: not_less)
  ultimately show ?thesis by (simp add: rem_def sgn_if)
next
  case False
  then have x: "x < 0" by simp
  show ?thesis
  proof (cases "(- x) mod 360 = 0")
    case True
    then have "x mod 360 = 0" by (metis dvd_minus_iff mod_eq_0_iff_dvd)
    with True x show ?thesis by (simp add: rem_def sgn_if)
  next
    case False
    then have "0 < (- x) mod 360" by (simp add: order_less_le)
    moreover have "x mod 360 = 360 - (- x) mod 360"
      using False by (metis add.inverse_inverse zmod_zminus1_eq_if)
    ultimately show ?thesis using x by (simp add: rem_def sgn_if)
  qed
qed

lemma rem_90: "rem r 90 = 0 \<longleftrightarrow> 90 dvd r"
  by (auto simp: rem_def sgn_if mod_eq_0_iff_dvd)

lemma int32_id: "- (2 ^ 31) \<le> x \<Longrightarrow> x < 2 ^ 31 \<Longrightarrow> int32 x = x"
  by (simp add: int32_def)

text \<open>
  While \<^verbatim>\<open>rotate\<close> plus the rotation of the EXIF orientation stays an \<^verbatim>\<open>int\<close>, the angle
  stored is their sum normalised into \<open>[0, 360)\<close>, a multiple of 90, and \<^verbatim>\<open>flip\<close> and
  \<^verbatim>\<open>flop\<close> are set by the orientations 5 and 7, and 2 and 4.
\<close>

lemma resolve_query_angle:
  assumes r: "ro = get_if as_int q ''ro'' (\<lambda>r. rem r 90 = 0) 0"
    and lo: "- (2 ^ 31) \<le> ro"
    and hi: "ro + exif_rotation (exif_orientation u img) < 2 ^ 31"
  shows "resolve_query u q img ''angle''
           = Some (VInt ((ro + exif_rotation (exif_orientation u img)) mod 360))"
proof -
  define e where "e = exif_orientation u img"
  have i: "int32 (ro + k) = ro + k" if "k = exif_rotation e" for k
  proof -
    have "0 \<le> k" using that by (simp add: exif_rotation_def)
    then show ?thesis using lo hi that by (intro int32_id) (simp_all add: e_def)
  qed
  consider "e = 6" | "e = 3" | "e = 8" | "e = 2" | "e = 7" | "e = 4" | "e = 5"
    | "e \<noteq> 6 \<and> e \<noteq> 3 \<and> e \<noteq> 8 \<and> e \<noteq> 2 \<and> e \<noteq> 7 \<and> e \<noteq> 4 \<and> e \<noteq> 5"
    by blast
  then have "resolve_query u q img ''angle'' = Some (VInt ((ro + exif_rotation e) mod 360))"
  proof cases
    case 1
    then show ?thesis using r [symmetric] i [of 90]
      by (simp add: resolve_query_def update_def Let_def exif_rotation_def normalize_angle
            e_def [symmetric])
  next
    case 2
    then show ?thesis using r [symmetric] i [of 180]
      by (simp add: resolve_query_def update_def Let_def exif_rotation_def normalize_angle
            e_def [symmetric])
  next
    case 3
    then show ?thesis using r [symmetric] i [of 270]
      by (simp add: resolve_query_def update_def Let_def exif_rotation_def normalize_angle
            e_def [symmetric])
  next
    case 4
    then show ?thesis using r [symmetric]
      by (simp add: resolve_query_def update_def Let_def exif_rotation_def normalize_angle
            e_def [symmetric])
  next
    case 5
    then show ?thesis using r [symmetric] i [of 90]
      by (simp add: resolve_query_def update_def Let_def exif_rotation_def normalize_angle
            e_def [symmetric])
  next
    case 6
    then show ?thesis using r [symmetric] i [of 180]
      by (simp add: resolve_query_def update_def Let_def exif_rotation_def normalize_angle
            e_def [symmetric])
  next
    case 7
    then show ?thesis using r [symmetric] i [of 270]
      by (simp add: resolve_query_def update_def Let_def exif_rotation_def normalize_angle
            e_def [symmetric])
  next
    case 8
    then show ?thesis using r [symmetric]
      by (simp add: resolve_query_def update_def Let_def exif_rotation_def normalize_angle
            e_def [symmetric])
  qed
  then show ?thesis by (simp add: e_def)
qed

lemma resolve_query_angle_multiple:
  assumes "ro = get_if as_int q ''ro'' (\<lambda>r. rem r 90 = 0) 0"
  shows "90 dvd (ro + exif_rotation exif) mod 360"
proof -
  have "90 dvd ro"
    using assms by (auto simp: get_if_def rem_90 split: option.splits)
  moreover have "90 dvd exif_rotation exif"
    by (simp add: exif_rotation_def)
  ultimately have "90 dvd ro + exif_rotation exif" by simp
  moreover have "(90::int) dvd 360" by simp
  ultimately show ?thesis by (simp add: dvd_mod)
qed

lemma resolve_query_flip_flop:
  "resolve_query u q img ''flip''
     = Some (VBool (get as_bool q ''flip'' False \<or> exif_orientation u img = 7 \<or> exif_orientation u img = 5))
   \<and> resolve_query u q img ''flop''
     = Some (VBool (get as_bool q ''flop'' False \<or> exif_orientation u img = 2 \<or> exif_orientation u img = 4))"
proof -
  define e where "e = exif_orientation u img"
  consider "e = 6" | "e = 3" | "e = 8" | "e = 2" | "e = 7" | "e = 4" | "e = 5"
    | "e \<noteq> 6 \<and> e \<noteq> 3 \<and> e \<noteq> 8 \<and> e \<noteq> 2 \<and> e \<noteq> 7 \<and> e \<noteq> 4 \<and> e \<noteq> 5"
    by blast
  then show ?thesis
    by cases (simp_all add: resolve_query_def update_def Let_def e_def [symmetric])
qed

text \<open>
  The target dimensions, in the order of the source: the coordinates in pixels, the
  scaling by the pixel ratio when it is in range, the swap for an EXIF orientation above 4
  without \<^verbatim>\<open>precrop\<close>, and the clamp.
\<close>

lemma resolve_query_dimensions_steps:
  "(let tw = to_pixels u (get as_Coordinate q ''w'' (Coordinate_INVALID u)) (width img);
        th = to_pixels u (get as_Coordinate q ''h'' (Coordinate_INVALID u)) (height img);
        r = get as_float q ''dpr'' minus_one_F;
        sw = (if pixel_ratio_in_range r then round_scaled tw r else tw);
        sh = (if pixel_ratio_in_range r then round_scaled th r else th);
        swap = (exif_orientation u img > 4 \<and> \<not> get as_bool q ''precrop'' False)
    in resolve_query u q img ''w''
         = Some (VInt (clamp (if swap then sh else sw) 0 (VIPS_MAX_COORD u)))
     \<and> resolve_query u q img ''h''
         = Some (VInt (clamp (if swap then sw else sh) 0 (VIPS_MAX_COORD u)))
     \<and> resolve_query u q img ''input_width'' = Some (VInt (width img))
     \<and> resolve_query u q img ''input_height'' = Some (VInt (height img)))"
proof -
  define e where "e = exif_orientation u img"
  consider "e = 6" | "e = 3" | "e = 8" | "e = 2" | "e = 7" | "e = 4" | "e = 5"
    | "e \<noteq> 6 \<and> e \<noteq> 3 \<and> e \<noteq> 8 \<and> e \<noteq> 2 \<and> e \<noteq> 7 \<and> e \<noteq> 4 \<and> e \<noteq> 5"
    by blast
  then show ?thesis
    by cases (simp_all add: resolve_query_def update_def get_def Let_def e_def [symmetric])
qed

text \<open>
  Without the parameter \<^verbatim>\<open>dpr\<close> the pixel ratio is \<^verbatim>\<open>-1.0F\<close>, which is not in range: the
  dimensions are not scaled.
\<close>

lemma resolve_query_dpr_absent:
  "q ''dpr'' = None \<Longrightarrow>
   resolve_query u q img ''w''
     = Some (VInt (clamp (if exif_orientation u img > 4 \<and> \<not> get as_bool q ''precrop'' False
                          then to_pixels u (get as_Coordinate q ''h'' (Coordinate_INVALID u)) (height img)
                          else to_pixels u (get as_Coordinate q ''w'' (Coordinate_INVALID u)) (width img))
                    0 (VIPS_MAX_COORD u)))"
proof -
  assume "q ''dpr'' = None"
  then have "get as_float q ''dpr'' minus_one_F = minus_one_F"
    by (simp add: get_def)
  then have "\<not> pixel_ratio_in_range (get as_float q ''dpr'' minus_one_F)"
    by (simp add: pixel_ratio_in_range_def valof_minus_one_F)
  then show ?thesis
    using resolve_query_dimensions_steps [of u q img] by (simp add: Let_def)
qed

text \<open>
  C5. The target dimensions \<^verbatim>\<open>w\<close> and \<^verbatim>\<open>h\<close> that \<^verbatim>\<open>resolve_query\<close> stores are the width
  and height coordinates of the request in pixels of the image's width and height; then
  both scaled by the pixel ratio \<^verbatim>\<open>dpr\<close> if and only if it is a number in \<open>[0, 8]\<close> (a ratio
  out of the range, an infinity, a NaN or, with the parameter absent, \<open>-1\<close> leaves them as
  they are); then swapped if and only if the EXIF orientation is above 4 and \<^verbatim>\<open>precrop\<close> is
  not set; then clamped to \<open>[0, VIPS_MAX_COORD]\<close>. The scaling is in single precision: the
  dimension is converted to \<^verbatim>\<open>float\<close>, the product with the ratio is rounded to the nearest
  \<^verbatim>\<open>float\<close>, and that is rounded to the nearest integer, a half going away from zero. This
  is stated for the requests whose two scaled dimensions fit an \<^verbatim>\<open>int\<close>; beyond, the
  conversion to \<^verbatim>\<open>int\<close> is undefined in C++ (\<open>resolve_query_cast_overflow\<close> below).
\<close>

theorem resolve_query_target_dimensions:
  "(let tw = to_pixels u (get as_Coordinate q ''w'' (Coordinate_INVALID u)) (width img);
        th = to_pixels u (get as_Coordinate q ''h'' (Coordinate_INVALID u)) (height img);
        swap = (exif_orientation u img > 4 \<and> \<not> get as_bool q ''precrop'' False);
        stored = (\<lambda>w h.
           resolve_query u q img ''w''
             = Some (VInt (clamp (if swap then h else w) 0 (VIPS_MAX_COORD u)))
         \<and> resolve_query u q img ''h''
             = Some (VInt (clamp (if swap then w else h) 0 (VIPS_MAX_COORD u))))
    in case valof (get as_float q ''dpr'' minus_one_F) of
         Finite x \<Rightarrow>
           if 0 \<le> x \<and> x \<le> 8
           then (let sw = std_round (nearest32 (nearest32 (of_int tw) * x));
                     sh = std_round (nearest32 (nearest32 (of_int th) * x))
                 in - (2 ^ 31) \<le> sw \<and> sw < 2 ^ 31 \<and> - (2 ^ 31) \<le> sh \<and> sh < 2 ^ 31
                    \<longrightarrow> stored sw sh)
           else stored tw th
       | _ \<Rightarrow> stored tw th)"
proof -
  define r where "r = get as_float q ''dpr'' minus_one_F"
  define tw where "tw = to_pixels u (get as_Coordinate q ''w'' (Coordinate_INVALID u)) (width img)"
  define th where "th = to_pixels u (get as_Coordinate q ''h'' (Coordinate_INVALID u)) (height img)"
  define swap where "swap = (exif_orientation u img > 4 \<and> \<not> get as_bool q ''precrop'' False)"
  define M where "M = VIPS_MAX_COORD u"
  have steps:
    "resolve_query u q img ''w''
       = Some (VInt (clamp (if swap then (if pixel_ratio_in_range r then round_scaled th r else th)
                            else (if pixel_ratio_in_range r then round_scaled tw r else tw)) 0 M))"
    "resolve_query u q img ''h''
       = Some (VInt (clamp (if swap then (if pixel_ratio_in_range r then round_scaled tw r else tw)
                            else (if pixel_ratio_in_range r then round_scaled th r else th)) 0 M))"
    using resolve_query_dimensions_steps [of u q img]
    by (simp_all add: Let_def r_def tw_def th_def swap_def M_def)
  have scaled: "round_scaled d r = std_round (nearest32 (nearest32 (of_int d) * x))"
    if "valof r = Finite x"
      and "- (2 ^ 31) \<le> std_round (nearest32 (nearest32 (of_int d) * x))"
      and "std_round (nearest32 (nearest32 (of_int d) * x)) < 2 ^ 31" for d x
    using that by (simp add: round_scaled_def int_of_float_def)
  have "case valof r of
         Finite x \<Rightarrow>
           if 0 \<le> x \<and> x \<le> 8
           then (let sw = std_round (nearest32 (nearest32 (of_int tw) * x));
                     sh = std_round (nearest32 (nearest32 (of_int th) * x))
                 in - (2 ^ 31) \<le> sw \<and> sw < 2 ^ 31 \<and> - (2 ^ 31) \<le> sh \<and> sh < 2 ^ 31
                    \<longrightarrow> resolve_query u q img ''w''
                          = Some (VInt (clamp (if swap then sh else sw) 0 M))
                      \<and> resolve_query u q img ''h''
                          = Some (VInt (clamp (if swap then sw else sh) 0 M)))
           else resolve_query u q img ''w'' = Some (VInt (clamp (if swap then th else tw) 0 M))
              \<and> resolve_query u q img ''h'' = Some (VInt (clamp (if swap then tw else th) 0 M))
       | _ \<Rightarrow> resolve_query u q img ''w'' = Some (VInt (clamp (if swap then th else tw) 0 M))
              \<and> resolve_query u q img ''h'' = Some (VInt (clamp (if swap then tw else th) 0 M))"
  proof (cases "valof r")
    case (Finite x)
    show ?thesis
    proof (cases "0 \<le> x \<and> x \<le> 8")
      case True
      then have "pixel_ratio_in_range r"
        using Finite by (simp add: pixel_ratio_in_range_def)
      then show ?thesis
        using Finite True by (auto simp add: steps Let_def scaled [OF Finite])
    next
      case False
      then have "\<not> pixel_ratio_in_range r"
        using Finite by (simp add: pixel_ratio_in_range_def)
      then show ?thesis
        using Finite False by (auto simp add: steps)
    qed
  next
    case (Infinity b)
    then have "\<not> pixel_ratio_in_range r"
      by (simp add: pixel_ratio_in_range_def)
    then show ?thesis
      using Infinity by (simp add: steps)
  next
    case NaN
    then have "\<not> pixel_ratio_in_range r"
      by (simp add: pixel_ratio_in_range_def)
    then show ?thesis
      using NaN by (simp add: steps)
  qed
  then show ?thesis
    unfolding Let_def r_def tw_def th_def swap_def M_def .
qed


theorem resolve_query_target_dimensions_witness:
  "valof 0x40000000 = Finite 2
   \<and> resolve_query (ex_utils\<lparr>exif_orientation := \<lambda>img. 6\<rparr>) [''dpr'' \<mapsto> VFloat 0x40000000]
         (ex_page 0\<lparr>width := 100, height := 50\<rparr>) ''w'' = Some (VInt 100)
   \<and> resolve_query (ex_utils\<lparr>exif_orientation := \<lambda>img. 6\<rparr>) [''dpr'' \<mapsto> VFloat 0x40000000]
         (ex_page 0\<lparr>width := 100, height := 50\<rparr>) ''h'' = Some (VInt 200)"
proof -
  have v: "valof 0x40000000 = Finite 2"
    by (simp add: valof_def pow2_def Let_def)
  have s: "std_round (nearest32 (nearest32 100 * 2)) = 200"
    "std_round (nearest32 (nearest32 50 * 2)) = 100"
    by (simp_all add: float_eval)
  have g: "get as_float [''dpr'' \<mapsto> VFloat 0x40000000] ''dpr'' minus_one_F = 0x40000000"
    "get as_bool [''dpr'' \<mapsto> VFloat 0x40000000] ''precrop'' False = False"
    by (simp_all add: get_def)
  have u: "to_pixels ex_utils c d = d" "VIPS_MAX_COORD ex_utils = 10000000" for c d
    by (simp_all add: ex_utils_def)
  show ?thesis
    using resolve_query_target_dimensions
      [where u = "ex_utils\<lparr>exif_orientation := \<lambda>img. 6\<rparr>"
         and q = "[''dpr'' \<mapsto> VFloat 0x40000000]"
         and img = "ex_page 0\<lparr>width := 100, height := 50\<rparr>"]
    by (simp add: v s g u clamp_def Let_def)
qed

text \<open>
  As the claim is worded, the dimensions are scaled by the ratio and rounded to the nearest
  integer. With a width of 4000003 pixels and \<^verbatim>\<open>dpr=1.1\<close>, whose \<^verbatim>\<open>float\<close> is
  \<open>9227469 / 2^23\<close>, the product is about 4400003.395 and the nearest integer is 4400003.
  In single precision the product is rounded first, to 4400003.5 (between \<open>2^22\<close> and
  \<open>2^23\<close> the numbers of a \<^verbatim>\<open>float\<close> are the multiples of a half), and \<^verbatim>\<open>std::round\<close> takes
  that to 4400004, which is what \<^verbatim>\<open>resolve_query\<close> stores.
\<close>

theorem target_dimensions_counterexample:
  "valof 0x3F8CCCCD = Finite (9227469 / 8388608)
   \<and> resolve_query (ex_utils\<lparr>to_pixels := \<lambda>c d. 4000003\<rparr>) [''dpr'' \<mapsto> VFloat 0x3F8CCCCD]
         (ex_page 0) ''w'' = Some (VInt 4400004)
   \<and> clamp (scaled_exact 4000003 (9227469 / 8388608)) 0
         (VIPS_MAX_COORD (ex_utils\<lparr>to_pixels := \<lambda>c d. 4000003\<rparr>)) = 4400003"
proof -
  have v: "valof 0x3F8CCCCD = Finite (9227469 / 8388608)"
    by (simp add: valof_def pow2_def Let_def)
  have r: "pixel_ratio_in_range 0x3F8CCCCD"
    by (simp add: pixel_ratio_in_range_def v)
  have s: "round_scaled 4000003 0x3F8CCCCD = 4400004"
    by (simp add: round_scaled_def v float_eval)
  have e: "scaled_exact 4000003 (9227469 / 8388608) = 4400003"
    by (simp add: scaled_exact_def std_round_def floor_rat_numeral)
  have g: "get as_float [''dpr'' \<mapsto> VFloat 0x3F8CCCCD] ''dpr'' minus_one_F = 0x3F8CCCCD"
    "get as_bool [''dpr'' \<mapsto> VFloat 0x3F8CCCCD] ''precrop'' False = False"
    by (simp_all add: get_def)
  have u: "VIPS_MAX_COORD ex_utils = 10000000" "exif_orientation ex_utils i = 0" for i
    by (simp_all add: ex_utils_def)
  show ?thesis
    using resolve_query_dimensions_steps
      [of "ex_utils\<lparr>to_pixels := \<lambda>c d. 4000003\<rparr>" "[''dpr'' \<mapsto> VFloat 0x3F8CCCCD]" "ex_page 0"]
    by (simp add: v r s e g u clamp_def Let_def)
qed

text \<open>
  Beyond the range of \<^verbatim>\<open>int\<close>: with a width of 2000000000 pixels and \<^verbatim>\<open>dpr=8\<close> the product
  is \<open>1.6 * 10^10\<close>, whose conversion to \<^verbatim>\<open>int\<close> is undefined; with the result of the x86
  conversion, the least \<^verbatim>\<open>int\<close>, the width stored is 0, where the product clamped is
  \<^verbatim>\<open>VIPS_MAX_COORD\<close>.
\<close>

lemma resolve_query_cast_overflow:
  "valof 0x41000000 = Finite 8
   \<and> resolve_query (ex_utils\<lparr>to_pixels := \<lambda>c d. 2000000000\<rparr>) [''dpr'' \<mapsto> VFloat 0x41000000]
         (ex_page 0) ''w'' = Some (VInt 0)
   \<and> clamp (scaled_exact 2000000000 8) 0
         (VIPS_MAX_COORD (ex_utils\<lparr>to_pixels := \<lambda>c d. 2000000000\<rparr>)) = 10000000"
proof -
  have v: "valof 0x41000000 = Finite 8"
    by (simp add: valof_def pow2_def Let_def)
  have r: "pixel_ratio_in_range 0x41000000"
    by (simp add: pixel_ratio_in_range_def v)
  have s: "round_scaled 2000000000 0x41000000 = - (2 ^ 31)"
    by (simp add: round_scaled_def v float_eval)
  have e: "scaled_exact 2000000000 8 = 16000000000"
    by (simp add: scaled_exact_def std_round_def floor_rat_numeral)
  have g: "get as_float [''dpr'' \<mapsto> VFloat 0x41000000] ''dpr'' minus_one_F = 0x41000000"
    "get as_bool [''dpr'' \<mapsto> VFloat 0x41000000] ''precrop'' False = False"
    by (simp_all add: get_def)
  have u: "VIPS_MAX_COORD ex_utils = 10000000" "exif_orientation ex_utils i = 0" for i
    by (simp_all add: ex_utils_def)
  show ?thesis
    using resolve_query_dimensions_steps
      [of "ex_utils\<lparr>to_pixels := \<lambda>c d. 2000000000\<rparr>" "[''dpr'' \<mapsto> VFloat 0x41000000]" "ex_page 0"]
    by (simp add: v r s e g u clamp_def Let_def)
qed

text \<open>
  \<^verbatim>\<open>resolve_query\<close> writes seven keys and leaves the others, so a request that passes both
  limits returns the image of the pages loaded with \<^verbatim>\<open>type\<close>, \<^verbatim>\<open>n\<close> and \<^verbatim>\<open>page\<close> stored.
\<close>

lemma resolve_query_other_keys:
  assumes "k \<noteq> ''angle''" "k \<noteq> ''flip''" "k \<noteq> ''flop''" "k \<noteq> ''w''" "k \<noteq> ''h''"
    "k \<noteq> ''input_width''" "k \<noteq> ''input_height''"
  shows "resolve_query u q img k = q k"
proof -
  define e where "e = exif_orientation u img"
  consider "e = 6" | "e = 3" | "e = 8" | "e = 2" | "e = 7" | "e = 4" | "e = 5"
    | "e \<noteq> 6 \<and> e \<noteq> 3 \<and> e \<noteq> 8 \<and> e \<noteq> 2 \<and> e \<noteq> 7 \<and> e \<noteq> 4 \<and> e \<noteq> 5"
    by blast
  then show ?thesis
    using assms
    by cases (simp_all add: resolve_query_def update_def Let_def e_def [symmetric])
qed

lemma new_from_source_stores_page_options:
  assumes "find_loader v = Inr (blob, loader)"
    and "load_pages v cfg (update (query st) ''type'' (VInt (determine_image_type u loader)))
           blob loader (trace st) = (Inr (img, n, p), tr)"
    and "\<not> (0 < limit_input_pixels cfg \<and> limit_input_pixels cfg < pixels (width img) (height img))"
  shows "\<exists>q'. new_from_source v u cfg st = (Inr img, \<lparr>query = q', trace = tr\<rparr>)
            \<and> q' ''n'' = Some (VInt n) \<and> q' ''page'' = Some (VInt p)
            \<and> q' ''type'' = Some (VInt (determine_image_type u loader))"
  using assms
  by (auto simp: new_from_source_def Let_def resolve_query_other_keys update_def)

text \<open>
  C4 fails at the top of the range of \<^verbatim>\<open>int\<close>. The rotation 2147483610 is a multiple of
  90; with the EXIF orientation 6, \<^verbatim>\<open>rotate + 90\<close> overflows, and with the two's-complement
  result the angle stored is 284, where the sum normalised is 180.
\<close>

theorem resolve_query_angle_overflow:
  "resolve_query (u\<lparr>exif_orientation := \<lambda>img. 6\<rparr>) [''ro'' \<mapsto> VInt 2147483610] img ''angle''
     = Some (VInt 284)"
  by (simp add: resolve_query_def get_if_def get_def update_def rem_def int32_def Let_def)

subsection \<open>Writing to the target\<close>

lemma attach_metadata_has_alpha:
  "attach_metadata absent q img = Inr copy \<Longrightarrow> has_alpha copy = has_alpha img"
  by (auto simp: attach_metadata_def Let_def split: if_splits)

text \<open>
  C6. For a request whose output is \<^verbatim>\<open>origin\<close> (the default): if the image has an alpha
  channel and its type cannot carry alpha, the output is PNG; if the type can carry alpha
  or the image has no alpha channel, the output is the one \<^verbatim>\<open>to_output\<close> maps the type to.
\<close>

theorem negotiate_output_origin:
  assumes "attach_metadata absent q img = Inr copy"
    and "get as_Output q ''output'' Origin = Origin"
    and "image_type = get as_int q ''type'' (ImageType_Unknown u)"
  shows "(has_alpha img \<and> \<not> support_alpha_channel u image_type
            \<longrightarrow> negotiate_output u q copy = Png)
       \<and> (support_alpha_channel u image_type \<or> \<not> has_alpha img
            \<longrightarrow> negotiate_output u q copy = to_output u image_type)"
  using assms attach_metadata_has_alpha [of absent q img copy]
  by (auto simp: negotiate_output_def)

theorem negotiate_output_origin_witness:
  "negotiate_output ex_utils [''type'' \<mapsto> VInt 1] (ex_page 0\<lparr>has_alpha := True\<rparr>) = Png
   \<and> negotiate_output ex_utils [''type'' \<mapsto> VInt 2] (ex_page 0\<lparr>has_alpha := True\<rparr>) = Webp
   \<and> negotiate_output ex_utils [''type'' \<mapsto> VInt 1] (ex_page 0) = Jpeg"
proof -
  have a: "attach_metadata 0 [''type'' \<mapsto> VInt t] img = Inr img" for t img
    by (simp add: attach_metadata_def get_def get_if_def)
  have o: "get as_Output [''type'' \<mapsto> VInt t] ''output'' Origin = Origin" for t
    by (simp add: get_def)
  have t: "get as_int [''type'' \<mapsto> VInt t] ''type'' (ImageType_Unknown ex_utils) = t" for t
    by (simp add: get_def)
  have s: "support_alpha_channel ex_utils t = (t = 2)" for t
    by (simp add: ex_utils_def)
  have c: "to_output ex_utils t = (if t = 2 then Webp else Jpeg)" for t
    by (simp add: ex_utils_def)
  have h: "\<not> has_alpha (ex_page 0)"
    by (simp add: ex_page_def)
  show ?thesis
    using negotiate_output_origin
            [OF a [of 1 "ex_page 0\<lparr>has_alpha := True\<rparr>"] o refl, where u = ex_utils]
          negotiate_output_origin
            [OF a [of 2 "ex_page 0\<lparr>has_alpha := True\<rparr>"] o refl, where u = ex_utils]
          negotiate_output_origin
            [OF a [of 1 "ex_page 0"] o refl, where u = ex_utils]
          t s c h
    by simp
qed

lemma write_to_target_disabled:
  assumes "attach_metadata absent q img = Inr copy"
    and "savers cfg AND Output_value u (negotiate_output u q copy) = 0"
    and "determine_image_extension u (negotiate_output u q copy) \<noteq> []"
  shows "write_to_target u cfg absent q img tr =
           (Inl (UnsupportedSaver (saver_message u cfg (negotiate_output u q copy))), tr)"
  using assms by (simp add: write_to_target_def saver_message_def Let_def)

lemma negotiate_output_explicit:
  assumes "q ''output'' = Some (VOutput out)" "out \<noteq> Origin"
  shows "negotiate_output u q copy = out"
  using assms by (simp add: negotiate_output_def get_def)

text \<open>
  C8. When the bit of the negotiated output is cleared in the savers of the configuration,
  \<^verbatim>\<open>write_to_target\<close> fails with \<^verbatim>\<open>UnsupportedSaver\<close>, its message lists the savers
  enabled, and no call is made on the target or the codec (the trace is unchanged). So
  does a request for WEBP when the bit of WEBP is cleared.
\<close>

theorem write_to_target_disabled_saver:
  assumes "attach_metadata absent q img = Inr copy"
  shows "(savers cfg AND Output_value u (negotiate_output u q copy) = 0 \<and>
          determine_image_extension u (negotiate_output u q copy) \<noteq> []
          \<longrightarrow> write_to_target u cfg absent q img tr =
                (Inl (UnsupportedSaver (saver_message u cfg (negotiate_output u q copy))), tr))
       \<and> (q ''output'' = Some (VOutput Webp) \<and>
          savers cfg AND Output_value u Webp = 0 \<and>
          determine_image_extension u Webp \<noteq> []
          \<longrightarrow> write_to_target u cfg absent q img tr =
                (Inl (UnsupportedSaver (saver_message u cfg Webp)), tr))"
proof (intro conjI impI)
  assume "savers cfg AND Output_value u (negotiate_output u q copy) = 0 \<and>
          determine_image_extension u (negotiate_output u q copy) \<noteq> []"
  then show "write_to_target u cfg absent q img tr =
                (Inl (UnsupportedSaver (saver_message u cfg (negotiate_output u q copy))), tr)"
    using assms by (simp add: write_to_target_disabled)
next
  assume a: "q ''output'' = Some (VOutput Webp) \<and>
          savers cfg AND Output_value u Webp = 0 \<and>
          determine_image_extension u Webp \<noteq> []"
  then have "negotiate_output u q copy = Webp"
    by (simp add: negotiate_output_explicit)
  then show "write_to_target u cfg absent q img tr =
                (Inl (UnsupportedSaver (saver_message u cfg Webp)), tr)"
    using assms a write_to_target_disabled [of absent q img copy cfg u tr] by simp
qed

theorem write_to_target_disabled_saver_witness:
  "write_to_target ex_utils ex_cfg 0 [''output'' \<mapsto> VOutput Webp] (ex_page 0) [] =
     (Inl (UnsupportedSaver ''Saving to webp is disabled. Supported savers: jpg, png''), [])"
proof -
  let ?q = "[''output'' \<mapsto> VOutput Webp]"
  have a: "attach_metadata 0 ?q (ex_page 0) = Inr (ex_page 0)"
    by (simp add: attach_metadata_def get_def get_if_def)
  have s: "savers ex_cfg AND Output_value ex_utils Webp = 0"
    by (simp add: ex_cfg_def ex_utils_def)
  have e: "determine_image_extension ex_utils Webp \<noteq> []"
    by (simp add: ex_utils_def)
  have m: "saver_message ex_utils ex_cfg Webp =
             ''Saving to webp is disabled. Supported savers: jpg, png''"
    by (simp add: saver_message_def ex_utils_def)
  show ?thesis
    using write_to_target_disabled_saver [OF a, where cfg = ex_cfg and u = ex_utils and tr = "[]"]
          s e m
    by simp
qed

text \<open>
  C10. The check of the savers comes before the case of JSON: a request for JSON whose bit
  is cleared fails with \<^verbatim>\<open>UnsupportedSaver\<close>, although with the bit set JSON is written to
  the target with no call of the codec.
\<close>

theorem write_to_target_json_disabled:
  assumes "attach_metadata absent q img = Inr copy"
    and "q ''output'' = Some (VOutput Json)"
  shows "(savers cfg AND Output_value u Json = 0 \<and> determine_image_extension u Json \<noteq> []
          \<longrightarrow> write_to_target u cfg absent q img tr =
                (Inl (UnsupportedSaver (saver_message u cfg Json)), tr))
       \<and> (savers cfg AND Output_value u Json \<noteq> 0
          \<longrightarrow> write_to_target u cfg absent q img tr =
                (Inr (),
                 tr @ [Target_setup (determine_image_extension u Json),
                       Target_write (image_to_json u copy
                                       (get as_int q ''type'' (ImageType_Unknown u))),
                       Target_end]))"
proof -
  have j: "negotiate_output u q copy = Json"
    using assms(2) by (simp add: negotiate_output_explicit)
  show ?thesis
    using assms(1) j write_to_target_disabled [of absent q img copy cfg u tr]
    by (auto simp: write_to_target_def Let_def)
qed

theorem write_to_target_json_disabled_witness:
  "write_to_target ex_utils ex_cfg 0 [''output'' \<mapsto> VOutput Json] (ex_page 0) [] =
     (Inl (UnsupportedSaver ''Saving to json is disabled. Supported savers: jpg, png''), [])
   \<and> write_to_target ex_utils (ex_cfg\<lparr>savers := 67\<rparr>) 0 [''output'' \<mapsto> VOutput Json]
        (ex_page 0) [] =
     (Inr (), [Target_setup ''.json'', Target_write ''{}'', Target_end])"
proof -
  let ?q = "[''output'' \<mapsto> VOutput Json]"
  have a: "attach_metadata 0 ?q (ex_page 0) = Inr (ex_page 0)"
    by (simp add: attach_metadata_def get_def get_if_def)
  have q: "?q ''output'' = Some (VOutput Json)" by simp
  have s: "savers ex_cfg AND Output_value ex_utils Json = 0"
    "savers (ex_cfg\<lparr>savers := 67\<rparr>) AND Output_value ex_utils Json \<noteq> 0"
    by (simp_all add: ex_cfg_def ex_utils_def)
  have e: "determine_image_extension ex_utils Json = ''.json''"
    by (simp add: ex_utils_def)
  have m: "saver_message ex_utils ex_cfg Json =
             ''Saving to json is disabled. Supported savers: jpg, png''"
    by (simp add: saver_message_def ex_utils_def)
  have j: "image_to_json ex_utils img t = ''{}''" for img t
    by (simp add: ex_utils_def)
  have r1: "write_to_target ex_utils ex_cfg 0 ?q (ex_page 0) [] =
              (Inl (UnsupportedSaver (saver_message ex_utils ex_cfg Json)), [])"
    by (rule write_to_target_json_disabled [OF a q, THEN conjunct1, rule_format])
       (simp add: s e)
  have r2: "write_to_target ex_utils (ex_cfg\<lparr>savers := 67\<rparr>) 0 ?q (ex_page 0) [] =
              (Inr (), [] @ [Target_setup (determine_image_extension ex_utils Json),
                        Target_write (image_to_json ex_utils (ex_page 0)
                                        (get as_int ?q ''type'' (ImageType_Unknown ex_utils))),
                        Target_end])"
    by (rule write_to_target_json_disabled [OF a q, THEN conjunct2, rule_format]) (rule s)
  show ?thesis
    unfolding r1 r2 m e j by simp
qed

text \<open>
  C9. If an element of the delay list is negative, the list is discarded and no delay is
  set on the copy; a list of one value \<open>d\<close> that is not negative is set as \<open>n\<close> copies of
  \<open>d\<close>, where \<open>n \<ge> 1\<close> is the number of pages stored in the query; an empty or absent
  list sets nothing.
\<close>

theorem attach_metadata_delays:
  "(q ''delay'' = Some (VVector v) \<and> (\<exists>d \<in> set v. d < 0)
      \<longrightarrow> (\<exists>copy. attach_metadata absent q img = Inr copy \<and> meta_delay copy = meta_delay img))
   \<and> (q ''delay'' = Some (VVector [d]) \<and> 0 \<le> d \<and> q ''n'' = Some (VInt n) \<and> 1 \<le> n
      \<longrightarrow> (\<exists>copy. attach_metadata absent q img = Inr copy \<and>
                   meta_delay copy = Some (replicate (nat n) d)))
   \<and> (q ''delay'' = Some (VVector []) \<or> q ''delay'' = None
      \<longrightarrow> (\<exists>copy. attach_metadata absent q img = Inr copy \<and> meta_delay copy = meta_delay img))"
proof (intro conjI impI)
  assume "q ''delay'' = Some (VVector v) \<and> (\<exists>d \<in> set v. d < 0)"
  then have "get_if as_vector q ''delay'' (list_all (\<lambda>d. d \<ge> 0)) [] = []"
    by (auto simp: get_if_def list_all_iff)
  then show "\<exists>copy. attach_metadata absent q img = Inr copy \<and> meta_delay copy = meta_delay img"
    by (simp add: attach_metadata_def Let_def)
next
  assume a: "q ''delay'' = Some (VVector [d]) \<and> 0 \<le> d \<and> q ''n'' = Some (VInt n) \<and> 1 \<le> n"
  then have "get_if as_vector q ''delay'' (list_all (\<lambda>d. d \<ge> 0)) [] = [d]"
    by (simp add: get_if_def)
  moreover have "get as_int q ''n'' absent = n" using a by (simp add: get_def)
  moreover have "nat n = Suc (nat (n - 1))" using a by arith
  then have "d # replicate (nat (n - 1)) d = replicate (nat n) d" by simp
  ultimately show "\<exists>copy. attach_metadata absent q img = Inr copy \<and>
                   meta_delay copy = Some (replicate (nat n) d)"
    using a by (simp add: attach_metadata_def Let_def)
next
  assume "q ''delay'' = Some (VVector []) \<or> q ''delay'' = None"
  then have "get_if as_vector q ''delay'' (list_all (\<lambda>d. d \<ge> 0)) [] = []"
    by (auto simp: get_if_def)
  then show "\<exists>copy. attach_metadata absent q img = Inr copy \<and> meta_delay copy = meta_delay img"
    by (simp add: attach_metadata_def Let_def)
qed

theorem attach_metadata_delays_witness:
  "(\<exists>copy. attach_metadata 0 [''delay'' \<mapsto> VVector [10, - 1], ''n'' \<mapsto> VInt 3] (ex_page 0) = Inr copy
           \<and> meta_delay copy = None)
   \<and> (\<exists>copy. attach_metadata 0 [''delay'' \<mapsto> VVector [50], ''n'' \<mapsto> VInt 3] (ex_page 0) = Inr copy
           \<and> meta_delay copy = Some [50, 50, 50])
   \<and> (\<exists>copy. attach_metadata 0 [''delay'' \<mapsto> VVector [], ''n'' \<mapsto> VInt 3] (ex_page 0) = Inr copy
           \<and> meta_delay copy = None)"
proof -
  have r: "replicate (nat 3) (50::int) = [50, 50, 50]"
    by (simp add: numeral_3_eq_3)
  have d: "meta_delay (ex_page 0) = None" by (simp add: ex_page_def)
  show ?thesis
    using attach_metadata_delays
            [where q = "[''delay'' \<mapsto> VVector [10, - 1], ''n'' \<mapsto> VInt 3]" and v = "[10, - 1]"
               and img = "ex_page 0" and absent = 0]
          attach_metadata_delays
            [where q = "[''delay'' \<mapsto> VVector [50], ''n'' \<mapsto> VInt 3]" and d = 50 and n = 3
               and img = "ex_page 0" and absent = 0]
          attach_metadata_delays
            [where q = "[''delay'' \<mapsto> VVector [], ''n'' \<mapsto> VInt 3]"
               and img = "ex_page 0" and absent = 0]
          r d
    by simp
qed

end
